theory Spec2Isabelle
  imports Main "HOL-Library.AList"
begin

section \<open>Data model (pkg/hyprconfig: the struct declarations)\<close>

text \<open>
  Go strings are byte sequences and are modelled as \<open>string\<close> (a list of 8-bit characters).
  A \<open>time.Time\<close> is modelled as an integer instant. A Go map whose iteration order the code
  never relies on is modelled as an association list with unique keys. A nil slice and an
  empty slice are both the empty list: the code only ever asks for their length.
\<close>

type_synonym time = int

record FileContent =
  fc_Data :: string
  fc_FileType :: string
  fc_Headers :: "(string \<times> string) list"
  fc_Hash :: string

text \<open>
  \<open>HyprProgramConfig\<close>: one node of the program-configuration tree. The field order is the
  order of the Go struct; \<open>pc_SubConfigs\<close> holds the children (Go: a slice of pointers).
\<close>

datatype HyprProgramConfig = HyprProgramConfig
  (pc_ID: string)
  (pc_Title: string)
  (pc_Program: string)
  (pc_InstallPath: string)
  (pc_Args: "string list")
  (pc_EnvVars: "(string \<times> string) list")
  (pc_FileContent: FileContent)
  (pc_Dependencies: "string list")
  (pc_SubConfigs: "HyprProgramConfig list")
  (pc_Platform: "string list")
  (pc_Optional: bool)
  (pc_UpdatedTimestamp: time)
  (pc_CreatedTimestamp: time)

text \<open>Field assignments \<open>x.SubConfigs = v\<close>, \<open>x.ID = v\<close>, and so on.\<close>

definition set_SubConfigs :: "HyprProgramConfig \<Rightarrow> HyprProgramConfig list \<Rightarrow> HyprProgramConfig" where
  "set_SubConfigs pc subs =
     HyprProgramConfig (pc_ID pc) (pc_Title pc) (pc_Program pc) (pc_InstallPath pc) (pc_Args pc)
       (pc_EnvVars pc) (pc_FileContent pc) (pc_Dependencies pc) subs (pc_Platform pc)
       (pc_Optional pc) (pc_UpdatedTimestamp pc) (pc_CreatedTimestamp pc)"

definition set_ID :: "HyprProgramConfig \<Rightarrow> string \<Rightarrow> HyprProgramConfig" where
  "set_ID pc i =
     HyprProgramConfig i (pc_Title pc) (pc_Program pc) (pc_InstallPath pc) (pc_Args pc)
       (pc_EnvVars pc) (pc_FileContent pc) (pc_Dependencies pc) (pc_SubConfigs pc) (pc_Platform pc)
       (pc_Optional pc) (pc_UpdatedTimestamp pc) (pc_CreatedTimestamp pc)"

definition set_UpdatedTimestamp :: "HyprProgramConfig \<Rightarrow> time \<Rightarrow> HyprProgramConfig" where
  "set_UpdatedTimestamp pc t =
     HyprProgramConfig (pc_ID pc) (pc_Title pc) (pc_Program pc) (pc_InstallPath pc) (pc_Args pc)
       (pc_EnvVars pc) (pc_FileContent pc) (pc_Dependencies pc) (pc_SubConfigs pc) (pc_Platform pc)
       (pc_Optional pc) t (pc_CreatedTimestamp pc)"

definition set_CreatedTimestamp :: "HyprProgramConfig \<Rightarrow> time \<Rightarrow> HyprProgramConfig" where
  "set_CreatedTimestamp pc t =
     HyprProgramConfig (pc_ID pc) (pc_Title pc) (pc_Program pc) (pc_InstallPath pc) (pc_Args pc)
       (pc_EnvVars pc) (pc_FileContent pc) (pc_Dependencies pc) (pc_SubConfigs pc) (pc_Platform pc)
       (pc_Optional pc) (pc_UpdatedTimestamp pc) t"

section \<open>Tree Mutator: nested removal (client.go, removeNestedProgramConfig, filterSubConfigs)\<close>

lemma size_SubConfigs_le: "size_list size (pc_SubConfigs pc) \<le> size pc"
  by (cases pc) simp

text \<open>
  \<open>filterSubConfigs\<close>: the loop over \<open>sub\<close> is the recursion over the list. Each child has
  its own children filtered first (only when it has any), then it is skipped when it is the
  target and appended to the result otherwise.
\<close>

function filterSubConfigs :: "HyprProgramConfig list \<Rightarrow> string \<Rightarrow> HyprProgramConfig list" where
  "filterSubConfigs [] targetID = []"
| "filterSubConfigs (sc # rest) targetID =
     (let sc' = (if pc_SubConfigs sc \<noteq> []
                 then set_SubConfigs sc (filterSubConfigs (pc_SubConfigs sc) targetID)
                 else sc)
      in if pc_ID sc' = targetID then filterSubConfigs rest targetID
         else sc' # filterSubConfigs rest targetID)"
  by pat_completeness auto
termination
  by (relation "measure (\<lambda>(l, t). size_list size l)")
     (auto simp: less_Suc_eq_le intro: trans_le_add1 [OF size_SubConfigs_le])

text \<open>
  \<open>removeNestedProgramConfig\<close>: the same loop over the top-level slice (of values, not of
  pointers), whose children are filtered by \<open>filterSubConfigs\<close>.
\<close>

fun removeNestedProgramConfig :: "HyprProgramConfig list \<Rightarrow> string \<Rightarrow> HyprProgramConfig list" where
  "removeNestedProgramConfig [] targetID = []"
| "removeNestedProgramConfig (item # rest) targetID =
     (let item' = (if pc_SubConfigs item \<noteq> []
                   then set_SubConfigs item (filterSubConfigs (pc_SubConfigs item) targetID)
                   else item)
      in if pc_ID item' \<noteq> targetID then item' # removeNestedProgramConfig rest targetID
         else removeNestedProgramConfig rest targetID)"

section \<open>Observing a tree\<close>

text \<open>
  \<open>tree_entries l anc\<close> lists the nodes of the forest \<open>l\<close> in depth-first pre-order. Each
  entry pairs the identities of the node's ancestors (outermost first, starting from \<open>anc\<close>)
  with the node itself stripped of its children, so the listing records every node's own
  fields, its depth, its parent chain and the order of siblings.
\<close>

definition shallow :: "HyprProgramConfig \<Rightarrow> HyprProgramConfig" where
  "shallow pc = set_SubConfigs pc []"

function tree_entries ::
  "HyprProgramConfig list \<Rightarrow> string list \<Rightarrow> (string list \<times> HyprProgramConfig) list" where
  "tree_entries [] anc = []"
| "tree_entries (n # ns) anc =
     (anc, shallow n) # tree_entries (pc_SubConfigs n) (anc @ [pc_ID n]) @ tree_entries ns anc"
  by pat_completeness auto
termination
  by (relation "measure (\<lambda>(l, t). size_list size l)")
     (auto simp: less_Suc_eq_le intro: trans_le_add1 [OF size_SubConfigs_le])

text \<open>The identities of all nodes of a forest, in pre-order.\<close>

function all_ids :: "HyprProgramConfig list \<Rightarrow> string list" where
  "all_ids [] = []"
| "all_ids (n # ns) = pc_ID n # all_ids (pc_SubConfigs n) @ all_ids ns"
  by pat_completeness auto
termination
  by (relation "measure (size_list size)")
     (auto simp: less_Suc_eq_le intro: trans_le_add1 [OF size_SubConfigs_le])

text \<open>The nodes of a forest in the same pre-order, each with its whole subtree.\<close>

function all_nodes :: "HyprProgramConfig list \<Rightarrow> HyprProgramConfig list" where
  "all_nodes [] = []"
| "all_nodes (n # ns) = n # all_nodes (pc_SubConfigs n) @ all_nodes ns"
  by pat_completeness auto
termination
  by (relation "measure (size_list size)")
     (auto simp: less_Suc_eq_le intro: trans_le_add1 [OF size_SubConfigs_le])

text \<open>
  An entry lies outside every subtree rooted at identity \<open>t\<close> when neither the node nor one of
  its ancestors has identity \<open>t\<close>.
\<close>

definition outside :: "string \<Rightarrow> (string list \<times> HyprProgramConfig) \<Rightarrow> bool" where
  "outside t e = (t \<notin> set (fst e) \<and> pc_ID (snd e) \<noteq> t)"

section \<open>Tree Mutator: insertion (client.go, insertIntoSubConfig, insertIntoNested)\<close>

text \<open>
  The Go functions append to the matched parent's children in place and return whether a
  parent was found. The model returns the list as the call leaves it together with that
  flag. The loop visits the nodes in order: a node that is the parent receives the new node
  as its last child and the search stops; otherwise its children are searched (only when it
  has any), and the loop goes on to the next sibling only when that search found nothing.
\<close>

function insertIntoNested ::
  "HyprProgramConfig list \<Rightarrow> HyprProgramConfig \<Rightarrow> string \<Rightarrow> HyprProgramConfig list \<times> bool" where
  "insertIntoNested [] newProg parentID = ([], False)"
| "insertIntoNested (x # rest) newProg parentID =
     (if pc_ID x = parentID
      then (set_SubConfigs x (pc_SubConfigs x @ [newProg]) # rest, True)
      else if pc_SubConfigs x \<noteq> []
      then (let (subs', ok) = insertIntoNested (pc_SubConfigs x) newProg parentID;
                x' = set_SubConfigs x subs'
            in if ok then (x' # rest, True)
               else (let (rest', ok') = insertIntoNested rest newProg parentID
                     in (x' # rest', ok')))
      else (let (rest', ok') = insertIntoNested rest newProg parentID
            in (x # rest', ok')))"
  by pat_completeness auto
termination
  by (relation "measure (\<lambda>(l, n, p). size_list size l)")
     (auto simp: less_Suc_eq_le intro: trans_le_add1 [OF size_SubConfigs_le])

text \<open>\<open>insertIntoSubConfig\<close>: the same loop over the top-level slice.\<close>

fun insertIntoSubConfig ::
  "HyprProgramConfig list \<Rightarrow> HyprProgramConfig \<Rightarrow> string \<Rightarrow> HyprProgramConfig list \<times> bool" where
  "insertIntoSubConfig [] newProg parentID = ([], False)"
| "insertIntoSubConfig (x # rest) newProg parentID =
     (if pc_ID x = parentID
      then (set_SubConfigs x (pc_SubConfigs x @ [newProg]) # rest, True)
      else if pc_SubConfigs x \<noteq> []
      then (let (subs', ok) = insertIntoNested (pc_SubConfigs x) newProg parentID;
                x' = set_SubConfigs x subs'
            in if ok then (x' # rest, True)
               else (let (rest', ok') = insertIntoSubConfig rest newProg parentID
                     in (x' # rest', ok')))
      else (let (rest', ok') = insertIntoSubConfig rest newProg parentID
            in (x # rest', ok')))"

text \<open>
  Example nodes for concrete evaluations: a node with the given identity, program and
  children, every other field empty.
\<close>

definition example_node :: "string \<Rightarrow> string \<Rightarrow> HyprProgramConfig list \<Rightarrow> HyprProgramConfig" where
  "example_node i prog subs =
     HyprProgramConfig i [] prog [] [] []
       \<lparr>fc_Data = [], fc_FileType = [], fc_Headers = [], fc_Hash = []\<rparr> [] subs [] False 0 0"

section \<open>Tree Mutator: update (client.go, updateProgramConfigRecursive, updateSubConfigRecursive)\<close>

text \<open>
  The node that replaces a match in \<open>updateSubConfigRecursive\<close>: the assignments
  \<open>updates.ID = progID\<close>, \<open>updates.CreatedTimestamp = list[i].CreatedTimestamp\<close>,
  \<open>updates.SubConfigs = list[i].SubConfigs\<close>, \<open>list[i] = &updates\<close>,
  \<open>list[i].UpdatedTimestamp = now\<close>, in this order.
\<close>

definition replaceNested ::
  "HyprProgramConfig \<Rightarrow> string \<Rightarrow> HyprProgramConfig \<Rightarrow> time \<Rightarrow> HyprProgramConfig" where
  "replaceNested old progID updates now =
     set_UpdatedTimestamp
       (set_SubConfigs (set_CreatedTimestamp (set_ID updates progID) (pc_CreatedTimestamp old))
          (pc_SubConfigs old))
       now"

text \<open>
  The node that replaces a match in \<open>updateProgramConfigRecursive\<close>: \<open>updates.ID = progID\<close>,
  \<open>updates.CreatedTimestamp = list[i].CreatedTimestamp\<close>, \<open>updates.UpdatedTimestamp = now\<close>,
  \<open>updates.SubConfigs = list[i].SubConfigs\<close>, \<open>list[i] = updates\<close>.
\<close>

definition replaceTop ::
  "HyprProgramConfig \<Rightarrow> string \<Rightarrow> HyprProgramConfig \<Rightarrow> time \<Rightarrow> HyprProgramConfig" where
  "replaceTop old progID updates now =
     set_SubConfigs
       (set_UpdatedTimestamp
          (set_CreatedTimestamp (set_ID updates progID) (pc_CreatedTimestamp old)) now)
       (pc_SubConfigs old)"

text \<open>
  Both functions return the list (updated in place) and whether a node was replaced. A node
  whose identity is \<open>progID\<close> is replaced and the search stops; otherwise its children are
  searched when it has any, the result is stored back as its children, and the loop moves on
  to the next sibling only when nothing was replaced below.
\<close>

function updateSubConfigRecursive ::
  "HyprProgramConfig list \<Rightarrow> string \<Rightarrow> HyprProgramConfig \<Rightarrow> time
     \<Rightarrow> HyprProgramConfig list \<times> bool" where
  "updateSubConfigRecursive [] progID updates now = ([], False)"
| "updateSubConfigRecursive (x # rest) progID updates now =
     (if pc_ID x = progID
      then (replaceNested x progID updates now # rest, True)
      else if pc_SubConfigs x \<noteq> []
      then (let (subs', done) = updateSubConfigRecursive (pc_SubConfigs x) progID updates now;
                x' = set_SubConfigs x subs'
            in if done then (x' # rest, True)
               else (let (rest', done') = updateSubConfigRecursive rest progID updates now
                     in (x' # rest', done')))
      else (let (rest', done') = updateSubConfigRecursive rest progID updates now
            in (x # rest', done')))"
  by pat_completeness auto
termination
  by (relation "measure (\<lambda>(l, p, u, n). size_list size l)")
     (auto simp: less_Suc_eq_le intro: trans_le_add1 [OF size_SubConfigs_le])

fun updateProgramConfigRecursive ::
  "HyprProgramConfig list \<Rightarrow> string \<Rightarrow> HyprProgramConfig \<Rightarrow> time
     \<Rightarrow> HyprProgramConfig list \<times> bool" where
  "updateProgramConfigRecursive [] progID updates now = ([], False)"
| "updateProgramConfigRecursive (x # rest) progID updates now =
     (if pc_ID x = progID
      then (replaceTop x progID updates now # rest, True)
      else if pc_SubConfigs x \<noteq> []
      then (let (subs', done) = updateSubConfigRecursive (pc_SubConfigs x) progID updates now;
                x' = set_SubConfigs x subs'
            in if done then (x' # rest, True)
               else (let (rest', done') = updateProgramConfigRecursive rest progID updates now
                     in (x' # rest', done')))
      else (let (rest', done') = updateProgramConfigRecursive rest progID updates now
            in (x # rest', done')))"

text \<open>
  What an update may keep of the caller's payload: the payload with its identity, creation
  timestamp and update timestamp overwritten, and its children dropped from view (the
  children of the result are those of the matched node).
\<close>

definition forced_payload ::
  "HyprProgramConfig \<Rightarrow> HyprProgramConfig \<Rightarrow> time \<Rightarrow> HyprProgramConfig" where
  "forced_payload old updates now =
     HyprProgramConfig (pc_ID old) (pc_Title updates) (pc_Program updates) (pc_InstallPath updates)
       (pc_Args updates) (pc_EnvVars updates) (pc_FileContent updates) (pc_Dependencies updates)
       (pc_SubConfigs old) (pc_Platform updates) (pc_Optional updates) now
       (pc_CreatedTimestamp old)"

section \<open>Aggregate, session and errors\<close>

record Author =
  au_UserName :: string
  au_ProfilePicture :: string
  au_URL :: string

text \<open>\<open>HyprConfig\<close>, the root document. \<open>hc_Likes\<close> is the stored like counter.\<close>

record HyprConfig =
  hc_ID :: string
  hc_Title :: string
  hc_Description :: string
  hc_Author :: Author
  hc_ProgramConfigs :: "HyprProgramConfig list"
  hc_GalleryPictures :: "string list"
  hc_OwnerID :: string
  hc_Private :: bool
  hc_Likes :: int
  hc_Version :: string
  hc_Tags :: "string list"
  hc_CreatedTimestamp :: time
  hc_UpdatedTimestamp :: time

text \<open>
  The fields of the session package's \<open>UserSessionData\<close> that the code reads. A request context
  is modelled by the session it carries, if any (\<open>session.GetSession\<close> fails on \<open>None\<close>).
\<close>

record UserSessionData =
  UserID :: string
  Roles :: "string list"
  SignedIn :: bool

type_synonym request_context = "UserSessionData option"

text \<open>
  The three sentinel errors of client.go, and \<open>Errorf\<close> for an error built by \<open>fmt.Errorf\<close>,
  carrying its message.
\<close>

datatype error = ErrUnauthorized | ErrForbidden | ErrNotFound | Errorf string

definition getUserFromContext :: "request_context \<Rightarrow> error + UserSessionData" where
  "getUserFromContext ctx =
     (case ctx of
        None \<Rightarrow> Inl ErrUnauthorized
      | Some user \<Rightarrow> if \<not> SignedIn user then Inl ErrUnauthorized else Inr user)"

fun isAdmin :: "string list \<Rightarrow> bool" where
  "isAdmin [] = False"
| "isAdmin (r # roles) = (if r = ''admin'' then True else isAdmin roles)"

text \<open>
  The configs collection: documents by \<open>_id\<close>. \<open>FindOne\<close> by \<open>_id\<close> followed by \<open>Decode\<close> is
  the lookup, a missing document being \<open>mongo.ErrNoDocuments\<close>; \<open>UpdateByID\<close> with \<open>$set\<close>
  rewrites the named fields of the document with that \<open>_id\<close>. The model covers the runs in
  which the store itself does not fail (no I/O error).
\<close>

type_synonym collection = "string \<rightharpoonup> HyprConfig"

section \<open>Tree Mutator: extraction and move (client.go, extractProgramConfig, MoveProgramConfig)\<close>

text \<open>
  \<open>extractProgramConfigNested\<close> builds \<open>newList\<close> while it scans. A node with the wanted
  identity ends the scan: the function returns the \<open>newList\<close> built so far and the node. A
  node below which the wanted node was found gets the shortened children, is appended, and
  the function returns as well. So the returned list is the result for the scanned prefix;
  in the recursion below the head is put in front of what the scan of the rest returns.
\<close>

function extractProgramConfigNested ::
  "HyprProgramConfig list \<Rightarrow> string \<Rightarrow> HyprProgramConfig list \<times> HyprProgramConfig option" where
  "extractProgramConfigNested [] progID = ([], None)"
| "extractProgramConfigNested (sc # rest) progID =
     (if pc_ID sc = progID then ([], Some sc)
      else if pc_SubConfigs sc \<noteq> []
      then (let (subNew, removed) = extractProgramConfigNested (pc_SubConfigs sc) progID
            in if removed \<noteq> None then ([set_SubConfigs sc subNew], removed)
               else (let (newList, r) = extractProgramConfigNested rest progID
                     in (sc # newList, r)))
      else (let (newList, r) = extractProgramConfigNested rest progID
            in (sc # newList, r)))"
  by pat_completeness auto
termination
  by (relation "measure (\<lambda>(l, p). size_list size l)")
     (auto simp: less_Suc_eq_le intro: trans_le_add1 [OF size_SubConfigs_le])

fun extractProgramConfig ::
  "HyprProgramConfig list \<Rightarrow> string \<Rightarrow> HyprProgramConfig list \<times> HyprProgramConfig option" where
  "extractProgramConfig [] progID = ([], None)"
| "extractProgramConfig (item # rest) progID =
     (if pc_ID item = progID then ([], Some item)
      else if pc_SubConfigs item \<noteq> []
      then (let (subNew, removed) = extractProgramConfigNested (pc_SubConfigs item) progID
            in if removed \<noteq> None then ([set_SubConfigs item subNew], removed)
               else (let (newList, r) = extractProgramConfig rest progID
                     in (item # newList, r)))
      else (let (newList, r) = extractProgramConfig rest progID
            in (item # newList, r)))"

text \<open>
  \<open>MoveProgramConfig\<close> returns its error (\<open>None\<close> for nil) and the collection as it leaves
  it. \<open>newParentID\<close> is the optional pointer argument; \<open>now\<close> is the value of \<open>time.Now()\<close>.
  The only write is the final \<open>UpdateByID\<close>.
\<close>

definition MoveProgramConfig ::
  "request_context \<Rightarrow> time \<Rightarrow> collection \<Rightarrow> string \<Rightarrow> string \<Rightarrow> string option
     \<Rightarrow> error option \<times> collection" where
  "MoveProgramConfig ctx now coll configID progID newParentID =
     (case getUserFromContext ctx of
        Inl err \<Rightarrow> (Some err, coll)
      | Inr user \<Rightarrow>
     (case coll configID of
        None \<Rightarrow> (Some ErrNotFound, coll)
      | Some cfg \<Rightarrow>
     if hc_OwnerID cfg \<noteq> UserID user \<and> \<not> isAdmin (Roles user) then (Some ErrForbidden, coll)
     else
     (case extractProgramConfig (hc_ProgramConfigs cfg) progID of
        (remaining, None) \<Rightarrow>
          (Some (Errorf (''program config with ID '' @ progID @ '' not found'')), coll)
      | (remaining, Some removed0) \<Rightarrow>
          (let removed = set_UpdatedTimestamp removed0 now
           in if newParentID = None \<or> newParentID = Some []
              then (None, coll(configID \<mapsto>
                      cfg\<lparr>hc_ProgramConfigs := remaining @ [removed], hc_UpdatedTimestamp := now\<rparr>))
              else (case insertIntoSubConfig remaining removed (the newParentID) of
                      (inserted, False) \<Rightarrow>
                        (Some (Errorf (''parent program config with ID '' @ the newParentID
                                        @ '' not found'')), coll)
                    | (inserted, True) \<Rightarrow>
                        (None, coll(configID \<mapsto>
                           cfg\<lparr>hc_ProgramConfigs := inserted, hc_UpdatedTimestamp := now\<rparr>)))))))"

text \<open>An example aggregate for concrete evaluations.\<close>

definition example_config :: "string \<Rightarrow> string \<Rightarrow> HyprProgramConfig list \<Rightarrow> HyprConfig" where
  "example_config i owner progs =
     \<lparr>hc_ID = i, hc_Title = ''my setup'', hc_Description = [],
      hc_Author = \<lparr>au_UserName = owner, au_ProfilePicture = [], au_URL = []\<rparr>,
      hc_ProgramConfigs = progs, hc_GalleryPictures = [], hc_OwnerID = owner,
      hc_Private = False, hc_Likes = 0, hc_Version = ''1.2.3'', hc_Tags = [],
      hc_CreatedTimestamp = 0, hc_UpdatedTimestamp = 0\<rparr>"

definition example_user :: "string \<Rightarrow> request_context" where
  "example_user u = Some \<lparr>UserID = u, Roles = [], SignedIn = True\<rparr>"

section \<open>BSON values and maps\<close>

text \<open>
  The values the code stores in a \<open>bson.M\<close>: strings, booleans, times, slices of strings, a
  program-config slice, a slice of further documents (\<open>[]bson.M\<close>) and nested documents. A
  \<open>bson.M\<close> is a Go map; it is modelled as an association list read with \<open>map_of\<close>, written
  with \<open>AList.update\<close> (\<open>m[k] = v\<close>) and \<open>AList.delete\<close> (\<open>delete(m, k)\<close>).
\<close>

datatype bson =
    BString string
  | BBool bool
  | BTime time
  | BStrings "string list"
  | BPrograms "HyprProgramConfig list"
  | BArray "bson list"
  | BDoc "(string \<times> bson) list"

type_synonym bson_M = "(string \<times> bson) list"

section \<open>HTTP handler: whole-config update (hchandler/handler.go, Handler.UpdateConfig)\<close>

text \<open>
  \<open>StringSlicesEqual\<close> (util.go): both empty, or the same number of distinct strings and every
  string of \<open>a\<close> occurring in \<open>b\<close> as often as in \<open>a\<close>.
\<close>

definition StringSlicesEqual :: "string list \<Rightarrow> string list \<Rightarrow> bool" where
  "StringSlicesEqual a b =
     (if a = [] \<and> b = [] then True
      else if length (remdups a) \<noteq> length (remdups b) then False
      else list_all (\<lambda>key. key \<in> set b \<and> count_list b key = count_list a key) (remdups a))"

text \<open>
  The block of the handler that builds the field set (``only changed fields''), one
  conditional assignment after the other, in the order of the source.
\<close>

definition changed_fields :: "HyprConfig \<Rightarrow> HyprConfig \<Rightarrow> bson_M" where
  "changed_fields updatesBody existing =
     (let updates = [];
          updates = (if hc_Title updatesBody \<noteq> [] \<and> hc_Title updatesBody \<noteq> hc_Title existing
                     then AList.update ''title'' (BString (hc_Title updatesBody)) updates
                     else updates);
          updates = (if hc_Description updatesBody \<noteq> []
                        \<and> hc_Description updatesBody \<noteq> hc_Description existing
                     then AList.update ''description'' (BString (hc_Description updatesBody)) updates
                     else updates);
          updates = (if hc_ProgramConfigs updatesBody \<noteq> []
                     then AList.update ''program_configs'' (BPrograms (hc_ProgramConfigs updatesBody))
                            updates
                     else updates);
          updates = (if hc_Private updatesBody \<noteq> hc_Private existing
                     then AList.update ''private'' (BString (hc_Title updatesBody)) updates
                     else updates);
          updates = (if hc_Tags updatesBody \<noteq> []
                        \<and> \<not> StringSlicesEqual (hc_Tags updatesBody) (hc_Tags existing)
                     then AList.update ''tags'' (BStrings (hc_Tags updatesBody)) updates
                     else updates)
      in updates)"

text \<open>The text of an error (\<open>err.Error()\<close>).\<close>

fun error_text :: "error \<Rightarrow> string" where
  "error_text ErrUnauthorized = ''unauthorized''"
| "error_text ErrForbidden = ''forbidden''"
| "error_text ErrNotFound = ''not found''"
| "error_text (Errorf msg) = msg"

text \<open>
  What the handler writes: an error with its HTTP status, or a body. The handler's two calls
  into the \<open>ConfigManager\<close> interface are parameters: \<open>getConfig\<close> and \<open>updateConfig\<close>. The
  result pairs the response with the list of \<open>UpdateConfig\<close> calls made, each with the
  identifier and the field set passed. \<open>body\<close> is the outcome of \<open>mserve.ReadBody\<close>.
\<close>

datatype response = WriteError nat string | WriteBody "(string \<times> string) list"

definition Handler_UpdateConfig ::
  "(string \<Rightarrow> error + HyprConfig) \<Rightarrow> (string \<Rightarrow> bson_M \<Rightarrow> error option) \<Rightarrow> string
     \<Rightarrow> string + HyprConfig \<Rightarrow> response \<times> (string \<times> bson_M) list" where
  "Handler_UpdateConfig getConfig updateConfig configID body =
     (if configID = [] then (WriteError 400 ''config_id is required'', [])
      else
     (case body of
        Inl err \<Rightarrow> (WriteError 400 err, [])
      | Inr updatesBody \<Rightarrow>
     (case getConfig configID of
        Inl err \<Rightarrow> (WriteError 500 (error_text err), [])
      | Inr existing \<Rightarrow>
     (let updates = changed_fields updatesBody existing
      in if length updates = 0 then (WriteBody [(''status'', ''no changes'')], [])
         else (case updateConfig configID updates of
                 Some err \<Rightarrow> (WriteError 500 (error_text err), [(configID, updates)])
               | None \<Rightarrow> (WriteBody [(''status'', ''updated'')], [(configID, updates)]))))))"

section \<open>Favorites (client.go, FavoriteConfig, UnfavoriteConfig)\<close>

record UserFavorite =
  uf_UserID :: string
  uf_ConfigID :: string
  uf_FavoritedAt :: time

text \<open>
  The two collections these operations touch: \<open>Collection\<close> (configs) and
  \<open>FavoritesCollection\<close> (the favorite records, in insertion order). The like counter is
  an unbounded integer.
\<close>

record ConfigManagerMongo =
  Collection :: collection
  FavoritesCollection :: "UserFavorite list"

text \<open>
  Each store call of the two operations can fail. \<open>store_faults\<close> says, for one run, which
  error (if any) each call meets: \<open>FindOne\<close> (an error other than ``no documents''),
  \<open>InsertOne\<close>, \<open>DeleteOne\<close> and the \<open>$inc\<close> \<open>UpdateByID\<close>. A call that fails changes nothing.
\<close>

record store_faults =
  find_error :: "error option"
  insert_error :: "error option"
  delete_error :: "error option"
  update_error :: "error option"

definition no_faults :: store_faults where
  "no_faults = \<lparr>find_error = None, insert_error = None, delete_error = None, update_error = None\<rparr>"

text \<open>
  The error of \<open>InsertOne\<close> on a record whose (user, config) pair is already present: the
  favorites collection has a unique index on the pair (\<open>ensureIndexes\<close>).
\<close>

definition duplicate_key_error :: error where
  "duplicate_key_error = Errorf ''E11000 duplicate key error''"

text \<open>The filter \<open>{user_id, config_id}\<close> of \<open>FindOne\<close> and \<open>DeleteOne\<close>.\<close>

definition favorite_matches :: "string \<Rightarrow> string \<Rightarrow> UserFavorite \<Rightarrow> bool" where
  "favorite_matches userID configID f = (uf_UserID f = userID \<and> uf_ConfigID f = configID)"

text \<open>\<open>DeleteOne\<close>: removes the first matching record; the second component is \<open>DeletedCount\<close>.\<close>

fun DeleteOne :: "('a \<Rightarrow> bool) \<Rightarrow> 'a list \<Rightarrow> 'a list \<times> nat" where
  "DeleteOne P [] = ([], 0)"
| "DeleteOne P (x # xs) =
     (if P x then (xs, 1) else (let (ys, n) = DeleteOne P xs in (x # ys, n)))"

text \<open>
  \<open>UpdateByID\<close> with \<open>$inc likes\<close>: adds to the counter of the document with that \<open>_id\<close>, and
  matches nothing (without error) when there is none.
\<close>

definition inc_likes :: "collection \<Rightarrow> string \<Rightarrow> int \<Rightarrow> collection" where
  "inc_likes coll configID d =
     (case coll configID of
        None \<Rightarrow> coll
      | Some cfg \<Rightarrow> coll(configID \<mapsto> cfg\<lparr>hc_Likes := hc_Likes cfg + d\<rparr>))"

text \<open>
  \<open>FavoriteConfig\<close>, statement by statement. \<open>exists.Err() == nil\<close> holds when the record is
  there and \<open>FindOne\<close> itself did not fail; then the function returns nil. Otherwise
  \<open>InsertOne\<close> runs: its error is returned, with nothing written. After a successful insert
  the \<open>$inc\<close> update runs and its error, or nil, is returned: when it fails the record is
  already inserted and the counter is not incremented.
\<close>

definition FavoriteConfig ::
  "store_faults \<Rightarrow> ConfigManagerMongo \<Rightarrow> request_context \<Rightarrow> time \<Rightarrow> string
     \<Rightarrow> error option \<times> ConfigManagerMongo" where
  "FavoriteConfig faults m ctx now configID =
     (case getUserFromContext ctx of
        Inl err \<Rightarrow> (Some err, m)
      | Inr user \<Rightarrow>
          (let found = list_ex (favorite_matches (UserID user) configID) (FavoritesCollection m)
           in if found \<and> find_error faults = None then (None, m)
              else if insert_error faults \<noteq> None then (insert_error faults, m)
              else if found then (Some duplicate_key_error, m)
              else (let m = m\<lparr>FavoritesCollection :=
                                 FavoritesCollection m
                                   @ [\<lparr>uf_UserID = UserID user, uf_ConfigID = configID,
                                        uf_FavoritedAt = now\<rparr>]\<rparr>
                    in if update_error faults \<noteq> None then (update_error faults, m)
                       else (None, m\<lparr>Collection := inc_likes (Collection m) configID 1\<rparr>))))"

text \<open>
  \<open>UnfavoriteConfig\<close>: the error of \<open>DeleteOne\<close> is returned with nothing written; a
  \<open>DeletedCount\<close> of 0 returns nil; otherwise the \<open>$inc\<close> update by -1 runs and its error, or
  nil, is returned: when it fails the record is already deleted and the counter is not
  decremented.
\<close>

definition UnfavoriteConfig ::
  "store_faults \<Rightarrow> ConfigManagerMongo \<Rightarrow> request_context \<Rightarrow> string
     \<Rightarrow> error option \<times> ConfigManagerMongo" where
  "UnfavoriteConfig faults m ctx configID =
     (case getUserFromContext ctx of
        Inl err \<Rightarrow> (Some err, m)
      | Inr user \<Rightarrow>
          if delete_error faults \<noteq> None then (delete_error faults, m)
          else (let (favorites, deletedCount) =
                      DeleteOne (favorite_matches (UserID user) configID) (FavoritesCollection m);
                    m = m\<lparr>FavoritesCollection := favorites\<rparr>
                in if deletedCount = 0 then (None, m)
                   else if update_error faults \<noteq> None then (update_error faults, m)
                   else (None, m\<lparr>Collection := inc_likes (Collection m) configID (- 1)\<rparr>)))"

text \<open>The number of favorite records that reference an aggregate.\<close>

definition favorites_of :: "ConfigManagerMongo \<Rightarrow> string \<Rightarrow> nat" where
  "favorites_of m configID = length (filter (\<lambda>f. uf_ConfigID f = configID) (FavoritesCollection m))"

text \<open>The invariant: every stored aggregate's like counter is its number of favorite records.\<close>

definition likes_consistent :: "ConfigManagerMongo \<Rightarrow> bool" where
  "likes_consistent m =
     (\<forall>configID cfg. Collection m configID = Some cfg \<longrightarrow> hc_Likes cfg = int (favorites_of m configID))"

text \<open>An example state for concrete evaluations.\<close>

definition example_state :: ConfigManagerMongo where
  "example_state =
     \<lparr>Collection = [''cfg1'' \<mapsto> (example_config ''cfg1'' ''u1'' [])\<lparr>hc_Likes := 1\<rparr>],
      FavoritesCollection = [\<lparr>uf_UserID = ''u1'', uf_ConfigID = ''cfg1'', uf_FavoritedAt = 3\<rparr>]\<rparr>"

section \<open>Search-Predicate Builder (util.go, buildSearchFilter)\<close>

record ConfigSearchFilters =
  f_Query :: string
  f_Tags :: "string list"
  f_Program :: string
  f_OwnerID :: string
  f_Private :: "bool option"
  f_UpdatedFrom :: "int option"
  f_UpdatedTo :: "int option"

text \<open>\<open>time.Unix(sec, 0)\<close>, with instants counted in nanoseconds.\<close>

definition time_Unix :: "int \<Rightarrow> time" where
  "time_Unix sec = sec * 1000000000"

text \<open>
  \<open>buildSearchFilter\<close>: \<open>andParts\<close> grows by one document per filter that is present, in the
  order of the source; \<open>orClause\<close> is the visibility clause; the final filter binds \<open>$or\<close> and,
  when \<open>andParts\<close> is not empty, \<open>$and\<close>. \<open>user\<close> is the pointer argument (\<open>None\<close> for nil).
\<close>

definition buildSearchFilter :: "ConfigSearchFilters \<Rightarrow> UserSessionData option \<Rightarrow> bson_M" where
  "buildSearchFilter filters user =
     (let andParts = [];
          andParts = (if f_Query filters \<noteq> []
                      then andParts @
                        [BDoc [(''$or'', BArray
                           [BDoc [(''title'', BDoc [(''$regex'', BString (f_Query filters)),
                                                    (''$options'', BString ''i'')])],
                            BDoc [(''description'', BDoc [(''$regex'', BString (f_Query filters)),
                                                          (''$options'', BString ''i'')])],
                            BDoc [(''tags'', BDoc [(''$regex'', BString (f_Query filters)),
                                                   (''$options'', BString ''i'')])]])]]
                      else andParts);
          andParts = (if length (f_Tags filters) > 0
                      then andParts @ [BDoc [(''tags'', BDoc [(''$all'', BStrings (f_Tags filters))])]]
                      else andParts);
          andParts = (if f_Program filters \<noteq> []
                      then andParts @ [BDoc [(''program_configs.program'', BString (f_Program filters))]]
                      else andParts);
          andParts = (if f_OwnerID filters \<noteq> []
                      then andParts @ [BDoc [(''owner_id'', BString (f_OwnerID filters))]]
                      else andParts);
          andParts = (if f_Private filters \<noteq> None
                      then andParts @ [BDoc [(''private'', BBool (the (f_Private filters)))]]
                      else andParts);
          andParts = (if f_UpdatedFrom filters \<noteq> None \<or> f_UpdatedTo filters \<noteq> None
                      then (let rangeFilter = [];
                                rangeFilter = (if f_UpdatedFrom filters \<noteq> None
                                               then AList.update ''$gte''
                                                      (BTime (time_Unix (the (f_UpdatedFrom filters))))
                                                      rangeFilter
                                               else rangeFilter);
                                rangeFilter = (if f_UpdatedTo filters \<noteq> None
                                               then AList.update ''$lte''
                                                      (BTime (time_Unix (the (f_UpdatedTo filters))))
                                                      rangeFilter
                                               else rangeFilter)
                            in andParts @ [BDoc [(''updated_timestamp'', BDoc rangeFilter)]])
                      else andParts);
          orClause = [BDoc [(''private'', BBool False)]];
          orClause = (case user of
                        None \<Rightarrow> orClause
                      | Some u \<Rightarrow> orClause @ [BDoc [(''owner_id'', BString (UserID u))]]);
          finalFilter = [(''$or'', BArray orClause)];
          finalFilter = (if length andParts > 0
                         then AList.update ''$and'' (BArray andParts) finalFilter
                         else finalFilter)
      in finalFilter)"

section \<open>How the document store evaluates a filter\<close>

text \<open>
  The store is an external collaborator; this is the part of its query semantics that the
  filters above use. The value a stored aggregate has under a field path:
\<close>

definition field_value :: "HyprConfig \<Rightarrow> string \<Rightarrow> bson option" where
  "field_value c path =
     (if path = ''_id'' then Some (BString (hc_ID c))
      else if path = ''title'' then Some (BString (hc_Title c))
      else if path = ''description''
      then (if hc_Description c = [] then None else Some (BString (hc_Description c)))
      else if path = ''tags'' then (if hc_Tags c = [] then None else Some (BStrings (hc_Tags c)))
      else if path = ''program_configs.program''
      then Some (BStrings (map pc_Program (hc_ProgramConfigs c)))
      else if path = ''owner_id'' then Some (BString (hc_OwnerID c))
      else if path = ''private'' then Some (BBool (hc_Private c))
      else if path = ''version'' then Some (BString (hc_Version c))
      else if path = ''updated_timestamp'' then Some (BTime (hc_UpdatedTimestamp c))
      else if path = ''created_timestamp'' then Some (BTime (hc_CreatedTimestamp c))
      else None)"

text \<open>
  A plain value matches a field that equals it, or an array field with an element that
  equals it.
\<close>

definition value_matches :: "bson option \<Rightarrow> bson \<Rightarrow> bool" where
  "value_matches fv v =
     (case fv of
        None \<Rightarrow> False
      | Some (BStrings xs) \<Rightarrow> BStrings xs = v \<or> list_ex (\<lambda>x. BString x = v) xs
      | Some w \<Rightarrow> w = v)"

text \<open>
  An operator document: every operator must hold. \<open>rx pattern options subject\<close> stands for
  the store's regular-expression search, which is left open.
\<close>

fun operator_matches ::
  "(string \<Rightarrow> string \<Rightarrow> string \<Rightarrow> bool) \<Rightarrow> bson_M \<Rightarrow> bson option \<Rightarrow> string \<times> bson \<Rightarrow> bool" where
  "operator_matches rx ops fv (op, arg) =
     (if op = ''$regex''
      then (case (arg, map_of ops ''$options'') of
              (BString pat, Some (BString opts)) \<Rightarrow>
                (case fv of
                   Some (BString s) \<Rightarrow> rx pat opts s
                 | Some (BStrings xs) \<Rightarrow> list_ex (rx pat opts) xs
                 | _ \<Rightarrow> False)
            | _ \<Rightarrow> False)
      else if op = ''$options'' then True
      else if op = ''$all''
      then (case (arg, fv) of
              (BStrings ts, Some (BStrings xs)) \<Rightarrow> list_all (\<lambda>t. t \<in> set xs) ts
            | _ \<Rightarrow> False)
      else if op = ''$gte''
      then (case (arg, fv) of (BTime a, Some (BTime t)) \<Rightarrow> a \<le> t | _ \<Rightarrow> False)
      else if op = ''$lte''
      then (case (arg, fv) of (BTime a, Some (BTime t)) \<Rightarrow> t \<le> a | _ \<Rightarrow> False)
      else False)"

definition field_matches ::
  "(string \<Rightarrow> string \<Rightarrow> string \<Rightarrow> bool) \<Rightarrow> HyprConfig \<Rightarrow> string \<Rightarrow> bson \<Rightarrow> bool" where
  "field_matches rx c path v =
     (case v of
        BDoc ops \<Rightarrow> list_all (operator_matches rx ops (field_value c path)) ops
      | _ \<Rightarrow> value_matches (field_value c path) v)"

text \<open>
  A filter document matches when every one of its entries does: \<open>$or\<close> needs one matching
  document of its array, \<open>$and\<close> needs all of them, any other key is a field condition.
\<close>

function query_matches ::
    "(string \<Rightarrow> string \<Rightarrow> string \<Rightarrow> bool) \<Rightarrow> HyprConfig \<Rightarrow> bson_M \<Rightarrow> bool"
  and some_matches ::
    "(string \<Rightarrow> string \<Rightarrow> string \<Rightarrow> bool) \<Rightarrow> HyprConfig \<Rightarrow> bson list \<Rightarrow> bool"
  and all_match ::
    "(string \<Rightarrow> string \<Rightarrow> string \<Rightarrow> bool) \<Rightarrow> HyprConfig \<Rightarrow> bson list \<Rightarrow> bool" where
  "query_matches rx c [] = True"
| "query_matches rx c ((k, v) # kvs) =
     ((if k = ''$or'' then (case v of BArray ds \<Rightarrow> some_matches rx c ds | _ \<Rightarrow> False)
       else if k = ''$and'' then (case v of BArray ds \<Rightarrow> all_match rx c ds | _ \<Rightarrow> False)
       else field_matches rx c k v)
      \<and> query_matches rx c kvs)"
| "some_matches rx c [] = False"
| "some_matches rx c (d # ds) =
     ((case d of BDoc kvs \<Rightarrow> query_matches rx c kvs | _ \<Rightarrow> False) \<or> some_matches rx c ds)"
| "all_match rx c [] = True"
| "all_match rx c (d # ds) =
     ((case d of BDoc kvs \<Rightarrow> query_matches rx c kvs | _ \<Rightarrow> False) \<and> all_match rx c ds)"
  by pat_completeness auto
termination
  by (relation "measure (\<lambda>x. case x of
          Inl (rx, c, kvs) \<Rightarrow> size_list (size_prod (\<lambda>_. 0) size) kvs
        | Inr (Inl (rx, c, ds)) \<Rightarrow> size_list size ds
        | Inr (Inr (rx, c, ds)) \<Rightarrow> size_list size ds)")
     auto

section \<open>Regular expressions as the extractor uses them\<close>

text \<open>
  The three patterns of util.go are sequences of literal characters, single character
  classes, greedy \<open>*\<close> and \<open>+\<close> over a character class, and capture groups. Text is read as
  ASCII: one character per byte.
\<close>

datatype char_class =
    Word      \<comment> \<open>\<open>\w\<close>: letters, digits, underscore\<close>
  | Space     \<comment> \<open>\<open>\s\<close>: tab, newline, form feed, carriage return, space\<close>
  | NotSpace  \<comment> \<open>\<open>\S\<close>\<close>
  | NotNewline \<comment> \<open>\<open>[^\n]\<close>\<close>
  | OneOf string \<comment> \<open>\<open>[...]\<close>, or a single character under \<open>*\<close>\<close>

definition is_space :: "char \<Rightarrow> bool" where
  "is_space c = (c = CHR 0x09 \<or> c = CHR 0x0A \<or> c = CHR 0x0C \<or> c = CHR 0x0D \<or> c = CHR '' '')"

definition is_word :: "char \<Rightarrow> bool" where
  "is_word c =
     (let n = (of_char c :: nat)
      in (48 \<le> n \<and> n \<le> 57) \<or> (65 \<le> n \<and> n \<le> 90) \<or> (97 \<le> n \<and> n \<le> 122) \<or> n = 95)"

fun in_class :: "char_class \<Rightarrow> char \<Rightarrow> bool" where
  "in_class Word c = is_word c"
| "in_class Space c = is_space c"
| "in_class NotSpace c = (\<not> is_space c)"
| "in_class NotNewline c = (c \<noteq> CHR 0x0A)"
| "in_class (OneOf cs) c = (c \<in> set cs)"

datatype re_item = Lit char | One char_class | Star char_class | Plus char_class | Open | Close

text \<open>
  \<open>match_here re s\<close> matches \<open>re\<close> at the start of \<open>s\<close> the way a leftmost-first engine does:
  alternatives are tried in priority order, a greedy repetition taking as many characters as
  it can before giving some back. The result is the text left after the match, with the text
  left at each group boundary passed on the way (in order).
\<close>

fun match_here :: "re_item list \<Rightarrow> string \<Rightarrow> (string list \<times> string) option" where
  "match_here [] s = Some ([], s)"
| "match_here (Lit c # re) [] = None"
| "match_here (Lit c # re) (x # xs) = (if x = c then match_here re xs else None)"
| "match_here (One k # re) [] = None"
| "match_here (One k # re) (x # xs) = (if in_class k x then match_here re xs else None)"
| "match_here (Star k # re) [] = match_here re []"
| "match_here (Star k # re) (x # xs) =
     (if in_class k x
      then (case match_here (Star k # re) xs of
              Some m \<Rightarrow> Some m
            | None \<Rightarrow> match_here re (x # xs))
      else match_here re (x # xs))"
| "match_here (Plus k # re) [] = None"
| "match_here (Plus k # re) (x # xs) =
     (if in_class k x then match_here (Star k # re) xs else None)"
| "match_here (Open # re) s =
     (case match_here re s of None \<Rightarrow> None | Some (marks, rest) \<Rightarrow> Some (s # marks, rest))"
| "match_here (Close # re) s =
     (case match_here re s of None \<Rightarrow> None | Some (marks, rest) \<Rightarrow> Some (s # marks, rest))"

text \<open>The text between two positions of the input, each given by the text left there.\<close>

definition between :: "string \<Rightarrow> string \<Rightarrow> string" where
  "between from_here to_here = take (length from_here - length to_here) from_here"

text \<open>
  The submatches of one match that began with \<open>s\<close> left: index 0 is the whole match, then
  one text per group (the groups of the patterns here are not nested).
\<close>

fun groups :: "string list \<Rightarrow> string list" where
  "groups (a # b # marks) = between a b # groups marks"
| "groups marks = []"

definition submatch :: "string \<Rightarrow> string list \<times> string \<Rightarrow> string list" where
  "submatch s m = between s (snd m) # groups (fst m)"

text \<open>
  \<open>FindAllStringSubmatch(input, -1)\<close>: successive non-overlapping matches, each the leftmost
  one at or after the end of the previous match. \<open>adj\<close> tells that the position is the end of
  the previous match, where the library does not accept an empty match; after an empty match
  the search moves on by one character.
\<close>

function find_all :: "re_item list \<Rightarrow> bool \<Rightarrow> string \<Rightarrow> string list list" where
  "find_all re adj s =
     (case match_here re s of
        Some m \<Rightarrow>
          if length (snd m) < length s then submatch s m # find_all re True (snd m)
          else (if adj then [] else [submatch s m])
               @ (case s of [] \<Rightarrow> [] | x # xs \<Rightarrow> find_all re False xs)
      | None \<Rightarrow> (case s of [] \<Rightarrow> [] | x # xs \<Rightarrow> find_all re False xs))"
  by pat_completeness auto
termination
  by (relation "measure (\<lambda>(re, adj, s). length s)") auto

definition FindAllStringSubmatch :: "re_item list \<Rightarrow> string \<Rightarrow> string list list" where
  "FindAllStringSubmatch re input = find_all re False input"

section \<open>String helpers of the Go library\<close>

text \<open>
  \<open>unicode.IsSpace\<close> on ASCII: tab, newline, vertical tab, form feed, carriage return, space.
  (The white-space characters beyond ASCII, which \<open>strings.Fields\<close> and \<open>strings.TrimSpace\<close>
  also recognise, are outside this byte-wise model.)
\<close>

definition unicode_IsSpace :: "char \<Rightarrow> bool" where
  "unicode_IsSpace c =
     (c = CHR 0x09 \<or> c = CHR 0x0A \<or> c = CHR 0x0B \<or> c = CHR 0x0C \<or> c = CHR 0x0D \<or> c = CHR '' '')"

text \<open>
  \<open>strings.FieldsFunc\<close>: the maximal runs of characters that do not satisfy \<open>f\<close>; \<open>cur\<close> is the
  field being read.
\<close>

fun fields_from :: "(char \<Rightarrow> bool) \<Rightarrow> string \<Rightarrow> string \<Rightarrow> string list" where
  "fields_from f cur [] = (if cur = [] then [] else [cur])"
| "fields_from f cur (c # cs) =
     (if f c then (if cur = [] then fields_from f [] cs else cur # fields_from f [] cs)
      else fields_from f (cur @ [c]) cs)"

definition FieldsFunc :: "string \<Rightarrow> (char \<Rightarrow> bool) \<Rightarrow> string list" where
  "FieldsFunc s f = fields_from f [] s"

definition Fields :: "string \<Rightarrow> string list" where
  "Fields s = FieldsFunc s unicode_IsSpace"

definition TrimSpace :: "string \<Rightarrow> string" where
  "TrimSpace s = rev (dropWhile unicode_IsSpace (rev (dropWhile unicode_IsSpace s)))"

section \<open>Variable/Directive Extractor (util.go, ParseKeyValuePairs, ExtractExecOnceCommands)\<close>

text \<open>The pattern \<^verbatim>\<open>\$(\w+)\s*=\s*(\S+)\<close>.\<close>

definition key_value_re :: "re_item list" where
  "key_value_re =
     [Lit (CHR ''$''), Open, Plus Word, Close, Star Space, Lit (CHR ''=''), Star Space,
      Open, Plus NotSpace, Close]"

text \<open>The patterns \<^verbatim>\<open>#*\s*exec-once\s*=\s*([^\n]+)\<close> and \<^verbatim>\<open>#*\s*exec\s*[=,]\s*([^\n]+)\<close>.\<close>

definition exec_once_re :: "re_item list" where
  "exec_once_re =
     [Star (OneOf ''#''), Star Space] @ map Lit ''exec-once''
     @ [Star Space, Lit (CHR ''=''), Star Space, Open, Plus NotNewline, Close]"

definition exec_re :: "re_item list" where
  "exec_re =
     [Star (OneOf ''#''), Star Space] @ map Lit ''exec''
     @ [Star Space, One (OneOf ''=,''), Star Space, Open, Plus NotNewline, Close]"

text \<open>
  \<open>ParseKeyValuePairs\<close>: every match binds \<open>"$" + match[1]\<close> to \<open>match[2]\<close>, a later match
  replacing an earlier binding of the same key.
\<close>

fun bind_pairs :: "(string \<rightharpoonup> string) \<Rightarrow> string list list \<Rightarrow> (string \<rightharpoonup> string)" where
  "bind_pairs result [] = result"
| "bind_pairs result (match # matches) =
     (case match of
        [whole, key, val] \<Rightarrow> bind_pairs (result((CHR ''$'' # key) \<mapsto> val)) matches
      | _ \<Rightarrow> bind_pairs result matches)"

definition ParseKeyValuePairs :: "string \<Rightarrow> (string \<rightharpoonup> string)" where
  "ParseKeyValuePairs input = bind_pairs Map.empty (FindAllStringSubmatch key_value_re input)"

definition ignore :: "string list" where
  "ignore = [''va11-popup'', ''va11-confirm'']"

text \<open>The inner loop body: what one part of a command line contributes.\<close>

definition command_of_part :: "(string \<rightharpoonup> string) \<Rightarrow> string \<Rightarrow> string list" where
  "command_of_part pairs part =
     (case Fields (TrimSpace part) of
        [] \<Rightarrow> []
      | p0 # pts \<Rightarrow>
          (case pairs p0 of
             Some v \<Rightarrow> if TrimSpace v \<in> set ignore then [] else [TrimSpace v]
           | None \<Rightarrow> if TrimSpace p0 \<in> set ignore then [] else [TrimSpace p0]))"

text \<open>The loop over the matches of one pattern: a match that contains \<open>#\<close> is skipped.\<close>

definition commands_of_match :: "(string \<rightharpoonup> string) \<Rightarrow> string list \<Rightarrow> string list" where
  "commands_of_match pairs match =
     (case match of
        [whole, commandLine] \<Rightarrow>
          if CHR ''#'' \<in> set whole then []
          else concat (map (command_of_part pairs)
                 (FieldsFunc commandLine
                    (\<lambda>c. c = CHR ''&'' \<or> c = CHR 0x0A \<or> c = CHR '';'')))
      | _ \<Rightarrow> [])"

text \<open>The commands in the order the two loops append them, before deduplication.\<close>

definition collected_commands :: "string \<Rightarrow> string list" where
  "collected_commands input =
     (let pairs = ParseKeyValuePairs input
      in concat (map (\<lambda>re. concat (map (commands_of_match pairs) (FindAllStringSubmatch re input)))
           [exec_once_re, exec_re]))"

text \<open>
  Modelled from the spec: \<open>utils.DeduplicateStrings\<close> (package pkg/utils is not among the
  sources). The specification says: ``Deduplicate while preserving first-seen order; return
  the resulting sequence.'' \<open>seen\<close> holds the strings already returned.
\<close>

fun dedup_from :: "string list \<Rightarrow> string list \<Rightarrow> string list" where
  "dedup_from seen [] = []"
| "dedup_from seen (x # xs) =
     (if x \<in> set seen then dedup_from seen xs else x # dedup_from (x # seen) xs)"

definition DeduplicateStrings :: "string list \<Rightarrow> string list" where
  "DeduplicateStrings xs = dedup_from [] xs"

definition ExtractExecOnceCommands :: "string \<Rightarrow> string list" where
  "ExtractExecOnceCommands input = DeduplicateStrings (collected_commands input)"

text \<open>The example text of the specification, line by line.\<close>

definition example_text :: string where
  "example_text =
     ''$term = kitty'' @ [CHR 0x0A] @
     ''exec-once = $term --workdir ~'' @ [CHR 0x0A] @
     ''exec = firefox &'' @ [CHR 0x0A] @
     ''# exec = ignored''"

section \<open>Tree Validator (the Validate methods and the static whitelist)\<close>

text \<open>The keys of \<open>validPrograms\<close>.\<close>

definition validPrograms :: "string list" where
  "validPrograms =
     [''hyprland'', ''hypridle'', ''hyprpaper'', ''hyprlock'', ''hypr-u'',
      ''kitty'', ''wofi'', ''alacritty'', ''foot'', ''wezterm'', ''rofi'', ''wayland-protocols'',
      ''waybar'', ''eww'', ''swaync'',
      ''sway'',
      ''clipse'', ''mako'', ''dunst'', ''grim'', ''slurp'', ''swappy'', ''pipewire'', ''pulseaudio'',
      ''elephant'', ''walker'']"

text \<open>Decimal rendering of an integer, as \<open>%d\<close> prints it.\<close>

definition digit_char :: "nat \<Rightarrow> char" where
  "digit_char d = ''0123456789'' ! d"

fun digits :: "nat \<Rightarrow> string" where
  "digits n = (if n < 10 then [digit_char n] else digits (n div 10) @ [digit_char (n mod 10)])"

declare digits.simps [simp del]

definition Sprint_d :: "int \<Rightarrow> string" where
  "Sprint_d i = (if i < 0 then CHR ''-'' # digits (nat (- i)) else digits (nat i))"

text \<open>
  The loop over the extracted commands in \<open>HyprProgramConfig.Validate\<close>. The allow-list
  gateway \<open>checkProgramExists\<close> is a parameter; it returns an error or nil.
\<close>

fun validate_commands :: "(string \<Rightarrow> error option) \<Rightarrow> string list \<Rightarrow> error option" where
  "validate_commands checkProgramExists [] = None"
| "validate_commands checkProgramExists (cmd # commands) =
     (if cmd \<notin> set validPrograms \<and> checkProgramExists cmd \<noteq> None
      then Some (Errorf (''invalid or unsupported program name: '' @ cmd))
      else validate_commands checkProgramExists commands)"

text \<open>
  \<open>HyprProgramConfig.Validate\<close>: the program name, then the commands of the file content
  (only when there are data and a hash), then the children in order; \<open>validate_subs\<close> is the
  loop over the children, \<open>i\<close> being the index printed for the next child (\<open>i+1\<close> in the
  source). A wrapped error carries its text in front of the inner error's text.
\<close>

function pc_Validate :: "(string \<Rightarrow> error option) \<Rightarrow> HyprProgramConfig \<Rightarrow> error option"
  and validate_subs ::
    "(string \<Rightarrow> error option) \<Rightarrow> nat \<Rightarrow> HyprProgramConfig list \<Rightarrow> error option" where
  "pc_Validate checkProgramExists pc =
     (if pc_Program pc \<notin> set validPrograms \<and> checkProgramExists (pc_Program pc) \<noteq> None
      then Some (Errorf (''invalid or unsupported program name: '' @ pc_Program pc))
      else
     (case (if length (fc_Data (pc_FileContent pc)) > 0 \<and> fc_Hash (pc_FileContent pc) \<noteq> []
            then validate_commands checkProgramExists
                   (ExtractExecOnceCommands (fc_Data (pc_FileContent pc)))
            else None) of
        Some err \<Rightarrow> Some err
      | None \<Rightarrow> validate_subs checkProgramExists 1 (pc_SubConfigs pc)))"
| "validate_subs checkProgramExists i [] = None"
| "validate_subs checkProgramExists i (subConfig # rest) =
     (case pc_Validate checkProgramExists subConfig of
        Some err \<Rightarrow>
          Some (Errorf (''sub-config #'' @ Sprint_d (int i) @ '' failed validation: '' @ error_text err))
      | None \<Rightarrow> validate_subs checkProgramExists (i + 1) rest)"
  by pat_completeness auto
termination
  by (relation "measure (\<lambda>x. case x of
          Inl (chk, pc) \<Rightarrow> 2 * size pc + 1
        | Inr (chk, i, subs) \<Rightarrow> 2 * size_list size subs)")
     (auto simp: less_Suc_eq_le intro: size_SubConfigs_le)

text \<open>\<open>HyprConfig.Validate\<close>; \<open>validate_programs\<close> is its loop, with the index as above.\<close>

fun validate_programs ::
  "(string \<Rightarrow> error option) \<Rightarrow> nat \<Rightarrow> HyprProgramConfig list \<Rightarrow> error option" where
  "validate_programs checkProgramExists i [] = None"
| "validate_programs checkProgramExists i (pc # rest) =
     (case pc_Validate checkProgramExists pc of
        Some err \<Rightarrow>
          Some (Errorf (''program config #'' @ Sprint_d (int i) @ '' ('' @ pc_Title pc
                        @ '') failed validation: '' @ error_text err))
      | None \<Rightarrow> validate_programs checkProgramExists (i + 1) rest)"

definition hc_Validate :: "(string \<Rightarrow> error option) \<Rightarrow> HyprConfig \<Rightarrow> error option" where
  "hc_Validate checkProgramExists hc =
     (if hc_Title hc = [] then Some (Errorf ''config title cannot be empty'')
      else if length (hc_ProgramConfigs hc) = 0
      then Some (Errorf ''config must contain at least one program configuration'')
      else validate_programs checkProgramExists 1 (hc_ProgramConfigs hc))"

section \<open>Version bump and field update (client.go, bumpPatchVersion, UpdateConfig)\<close>

text \<open>\<open>strings.Split(v, ".")\<close>: the texts between the separators, one more than separators.\<close>

fun Split :: "string \<Rightarrow> char \<Rightarrow> string list" where
  "Split [] sep = [[]]"
| "Split (x # xs) sep =
     (if x = sep then [] # Split xs sep
      else (case Split xs sep of p # ps \<Rightarrow> (x # p) # ps | [] \<Rightarrow> [[x]]))"

text \<open>
  \<open>strconv.Atoi\<close> for a 64-bit \<open>int\<close>: an optional sign, then one or more decimal digits; the
  value must lie between \<open>-2^63\<close> and \<open>2^63 - 1\<close>. Everything else is an error (\<open>None\<close>).
\<close>

definition is_digit :: "char \<Rightarrow> bool" where
  "is_digit c = (48 \<le> (of_char c :: nat) \<and> (of_char c :: nat) \<le> 57)"

fun parse_digits :: "nat \<Rightarrow> string \<Rightarrow> nat option" where
  "parse_digits n [] = Some n"
| "parse_digits n (ch # s) =
     (if is_digit ch then parse_digits (n * 10 + (of_char ch - 48)) s else None)"

definition Atoi :: "string \<Rightarrow> int option" where
  "Atoi s =
     (case s of
        [] \<Rightarrow> None
      | c # cs \<Rightarrow>
          (let neg = (c = CHR ''-'');
               ds = (if c = CHR ''-'' \<or> c = CHR ''+'' then cs else s)
           in if ds = [] then None
              else (case parse_digits 0 ds of
                      None \<Rightarrow> None
                    | Some un \<Rightarrow>
                        (let n = (if neg then - int un else int un)
                         in if - (2 ^ 63) \<le> n \<and> n \<le> 2 ^ 63 - 1 then Some n else None))))"

text \<open>The value a 64-bit signed integer holds after an arithmetic result \<open>i\<close> wraps around.\<close>

definition wrap64 :: "int \<Rightarrow> int" where
  "wrap64 i = (i + 2 ^ 63) mod 2 ^ 64 - 2 ^ 63"

text \<open>
  \<open>bumpPatchVersion\<close>: anything but three parts gives \<open>0.0.1\<close>; a patch that \<open>Atoi\<close> rejects
  counts as 0; \<open>patch++\<close> is 64-bit arithmetic.
\<close>

definition bumpPatchVersion :: "string \<Rightarrow> string" where
  "bumpPatchVersion v =
     (case Split v (CHR ''.'') of
        [major, minor, p] \<Rightarrow>
          (let patch = (case Atoi p of None \<Rightarrow> 0 | Some n \<Rightarrow> n);
               patch = wrap64 (patch + 1)
           in major @ ''.'' @ minor @ ''.'' @ Sprint_d patch)
      | _ \<Rightarrow> ''0.0.1'')"

text \<open>
  Decoding the merged map into the struct (\<open>bson.Marshal\<close> of the merged map, then
  \<open>bson.Unmarshal\<close> into \<open>mergedCfg\<close>, which starts as a copy of \<open>existing\<close>). The merged map is
  the encoding of \<open>existing\<close> overwritten by the updates, so the result is \<open>existing\<close> with
  every field replaced whose key is bound in the updates; a value of another type than the
  field's is a decoding error; keys that name no field are skipped. The driver's own error
  text, which the source wraps, is not modelled.
\<close>

definition decode_field ::
  "bson_M \<Rightarrow> string \<Rightarrow> (bson \<Rightarrow> (HyprConfig \<Rightarrow> HyprConfig) option) \<Rightarrow> error + HyprConfig
     \<Rightarrow> error + HyprConfig" where
  "decode_field updates key decode r =
     (case r of
        Inl err \<Rightarrow> Inl err
      | Inr cfg \<Rightarrow>
          (case map_of updates key of
             None \<Rightarrow> Inr cfg
           | Some v \<Rightarrow>
               (case decode v of
                  None \<Rightarrow> Inl (Errorf ''failed to unmarshal merged BSON into struct'')
                | Some f \<Rightarrow> Inr (f cfg))))"

definition unmarshal_merged :: "HyprConfig \<Rightarrow> bson_M \<Rightarrow> error + HyprConfig" where
  "unmarshal_merged existing updates =
     (decode_field updates ''updated_timestamp''
        (\<lambda>v. case v of BTime t \<Rightarrow> Some (\<lambda>c. c\<lparr>hc_UpdatedTimestamp := t\<rparr>) | _ \<Rightarrow> None)
     (decode_field updates ''tags''
        (\<lambda>v. case v of BStrings ts \<Rightarrow> Some (\<lambda>c. c\<lparr>hc_Tags := ts\<rparr>) | _ \<Rightarrow> None)
     (decode_field updates ''version''
        (\<lambda>v. case v of BString s \<Rightarrow> Some (\<lambda>c. c\<lparr>hc_Version := s\<rparr>) | _ \<Rightarrow> None)
     (decode_field updates ''private''
        (\<lambda>v. case v of BBool b \<Rightarrow> Some (\<lambda>c. c\<lparr>hc_Private := b\<rparr>) | _ \<Rightarrow> None)
     (decode_field updates ''gallery_pictures''
        (\<lambda>v. case v of BStrings ps \<Rightarrow> Some (\<lambda>c. c\<lparr>hc_GalleryPictures := ps\<rparr>) | _ \<Rightarrow> None)
     (decode_field updates ''description''
        (\<lambda>v. case v of BString s \<Rightarrow> Some (\<lambda>c. c\<lparr>hc_Description := s\<rparr>) | _ \<Rightarrow> None)
     (decode_field updates ''title''
        (\<lambda>v. case v of BString s \<Rightarrow> Some (\<lambda>c. c\<lparr>hc_Title := s\<rparr>) | _ \<Rightarrow> None)
     (Inr existing))))))))"

text \<open>
  \<open>ConfigManagerMongo.UpdateConfig\<close>, with the gateway \<open>checkProgramExists\<close> and the value \<open>now\<close>
  of \<open>time.Now()\<close> as parameters. It returns its error and the configs collection as it
  leaves it. The final \<open>UpdateOne\<close> with \<open>$set\<close> rewrites the fields bound in the updates; on
  the stored aggregate this is the merged configuration that was just decoded from the same
  bindings. A caller cannot bind the author through this model (the handler never does).
\<close>

definition UpdateConfig ::
  "(string \<Rightarrow> error option) \<Rightarrow> request_context \<Rightarrow> time \<Rightarrow> collection \<Rightarrow> string \<Rightarrow> bson_M
     \<Rightarrow> error option \<times> collection" where
  "UpdateConfig checkProgramExists ctx now coll id' updates =
     (case getUserFromContext ctx of
        Inl err \<Rightarrow> (Some err, coll)
      | Inr user \<Rightarrow>
     (case coll id' of
        None \<Rightarrow> (Some ErrNotFound, coll)
      | Some existing \<Rightarrow>
     if hc_OwnerID existing \<noteq> UserID user \<and> \<not> isAdmin (Roles user) then (Some ErrForbidden, coll)
     else
     (let newVersion = bumpPatchVersion (hc_Version existing);
          updates = AList.update ''version'' (BString newVersion) updates;
          updates = AList.update ''updated_timestamp'' (BTime now) updates;
          updates = AList.delete ''_id'' updates;
          updates = AList.delete ''owner_id'' updates;
          updates = AList.delete ''likes'' updates;
          updates = AList.delete ''created_timestamp'' updates;
          updates = AList.delete ''program_configs'' updates
      in (case unmarshal_merged existing updates of
            Inl err \<Rightarrow> (Some err, coll)
          | Inr mergedCfg \<Rightarrow>
              (case hc_Validate checkProgramExists mergedCfg of
                 Some err \<Rightarrow>
                   (Some (Errorf (''merged config failed validation: '' @ error_text err)), coll)
               | None \<Rightarrow> (None, coll(id' \<mapsto> mergedCfg)))))))"

section \<open>Basic facts about the field assignments\<close>

lemma set_SubConfigs_sel [simp]:
  "pc_ID (set_SubConfigs pc s) = pc_ID pc"
  "pc_SubConfigs (set_SubConfigs pc s) = s"
  "pc_CreatedTimestamp (set_SubConfigs pc s) = pc_CreatedTimestamp pc"
  "pc_UpdatedTimestamp (set_SubConfigs pc s) = pc_UpdatedTimestamp pc"
  "pc_Program (set_SubConfigs pc s) = pc_Program pc"
  "pc_FileContent (set_SubConfigs pc s) = pc_FileContent pc"
  "set_SubConfigs (set_SubConfigs pc s) s' = set_SubConfigs pc s'"
  "set_SubConfigs pc (pc_SubConfigs pc) = pc"
  by (simp_all add: set_SubConfigs_def)

lemma shallow_simps [simp]:
  "pc_ID (shallow pc) = pc_ID pc"
  "pc_SubConfigs (shallow pc) = []"
  "shallow (set_SubConfigs pc s) = shallow pc"
  by (simp_all add: shallow_def)

lemma entries_ids: "map (\<lambda>e. pc_ID (snd e)) (tree_entries l anc) = all_ids l"
  by (induction l anc rule: tree_entries.induct) simp_all

lemma length_all_nodes: "length (all_nodes l) = length (tree_entries l anc)"
  by (induction l anc rule: tree_entries.induct) simp_all

lemma entries_nodes: "map snd (tree_entries l anc) = map shallow (all_nodes l)"
  by (induction l anc rule: tree_entries.induct) simp_all

text \<open>The listing determines the forest: two forests with the same listing are equal.\<close>

lemma entries_deeper:
  "e \<in> set (tree_entries l anc) \<Longrightarrow> length anc \<le> length (fst e)"
  by (induction l anc rule: tree_entries.induct) fastforce+

lemma entries_head:
  "tree_entries l anc = [] \<or> fst (hd (tree_entries l anc)) = anc"
  by (cases l) simp_all

lemma split_by_depth:
  assumes "\<forall>e \<in> set xs. P e" "ys = [] \<or> \<not> P (hd ys)"
  shows "takeWhile P (xs @ ys) = xs" "dropWhile P (xs @ ys) = ys"
  using assms by (cases ys; simp)+

lemma node_eqI:
  "shallow n = shallow m \<Longrightarrow> pc_SubConfigs n = pc_SubConfigs m \<Longrightarrow> n = m"
  by (cases n; cases m) (simp add: shallow_def set_SubConfigs_def)

lemma tree_entries_inj:
  "tree_entries a anc = tree_entries b anc \<Longrightarrow> a = b"
proof (induction a anc arbitrary: b rule: tree_entries.induct)
  case (1 anc)
  then show ?case by (cases b) simp_all
next
  case (2 n ns anc)
  from "2.prems" obtain m ms where b: "b = m # ms" by (cases b) simp_all
  let ?P = "\<lambda>e::string list \<times> HyprProgramConfig. length anc < length (fst e)"
  from "2.prems" b have sh: "shallow n = shallow m"
    and eq: "tree_entries (pc_SubConfigs n) (anc @ [pc_ID n]) @ tree_entries ns anc
             = tree_entries (pc_SubConfigs m) (anc @ [pc_ID m]) @ tree_entries ms anc"
    by simp_all
  from sh have idm: "pc_ID m = pc_ID n"
    by (metis shallow_simps(1))
  have deep: "\<forall>e \<in> set (tree_entries l (anc @ [i])). ?P e" for l i
    using entries_deeper [of _ l "anc @ [i]"] by fastforce
  have shallow_hd: "tree_entries l anc = [] \<or> \<not> ?P (hd (tree_entries l anc))" for l
    using entries_head [of l anc] by auto
  have "tree_entries (pc_SubConfigs n) (anc @ [pc_ID n])
        = takeWhile ?P (tree_entries (pc_SubConfigs n) (anc @ [pc_ID n]) @ tree_entries ns anc)"
    using split_by_depth(1) [OF deep shallow_hd] by simp
  also have "\<dots> = tree_entries (pc_SubConfigs m) (anc @ [pc_ID m])"
    unfolding eq using split_by_depth(1) [OF deep shallow_hd] by simp
  finally have subs: "pc_SubConfigs n = pc_SubConfigs m"
    using "2.IH"(1) idm by simp
  have "tree_entries ns anc
        = dropWhile ?P (tree_entries (pc_SubConfigs n) (anc @ [pc_ID n]) @ tree_entries ns anc)"
    using split_by_depth(2) [OF deep shallow_hd] by simp
  also have "\<dots> = tree_entries ms anc"
    unfolding eq using split_by_depth(2) [OF deep shallow_hd] by simp
  finally have "ns = ms" using "2.IH"(2) by simp
  with node_eqI [OF sh subs] b show ?case by simp
qed

section \<open>Nested removal deletes exactly the target's subtrees\<close>

lemma entries_under_target:
  "t \<in> set anc \<Longrightarrow> filter (outside t) (tree_entries l anc) = []"
  by (induction l anc rule: tree_entries.induct) (auto simp: outside_def)

lemma filterSubConfigs_entries:
  "t \<notin> set anc \<Longrightarrow>
   tree_entries (filterSubConfigs l t) anc = filter (outside t) (tree_entries l anc)"
proof (induction l t arbitrary: anc rule: filterSubConfigs.induct)
  case (1 t)
  show ?case by simp
next
  case (2 sc rest t)
  show ?case
  proof (cases "pc_ID sc = t")
    case True
    then show ?thesis using 2
      by (simp add: Let_def outside_def entries_under_target[unfolded outside_def])
  next
    case False
    then show ?thesis using 2
      by (cases "pc_SubConfigs sc = []") (simp_all add: Let_def outside_def)
  qed
qed

lemma removeNested_eq_filterSubConfigs:
  "removeNestedProgramConfig l t = filterSubConfigs l t"
  by (induction l) (simp_all add: Let_def)

text \<open>
  Claim C1. For every forest \<open>l\<close> and every target identity \<open>t\<close>, the pre-order listing of
  \<open>removeNestedProgramConfig l t\<close> is the pre-order listing of \<open>l\<close> with exactly those entries
  dropped that have identity \<open>t\<close> or an ancestor of identity \<open>t\<close>: the target goes together
  with its whole subtree, wherever it is nested; every other node keeps its fields, its
  ancestor chain and its position among the remaining nodes; and no node of the result has
  identity \<open>t\<close>.
\<close>

theorem removeNested_removes_subtree:
  "tree_entries (removeNestedProgramConfig l t) [] = filter (outside t) (tree_entries l [])
   \<and> t \<notin> set (all_ids (removeNestedProgramConfig l t))"
  by (auto simp: removeNested_eq_filterSubConfigs filterSubConfigs_entries outside_def
        entries_ids [of _ "[]", symmetric])

section \<open>Insertion followed by removal\<close>

lemma insertIntoSubConfig_eq: "insertIntoSubConfig l n p = insertIntoNested l n p"
  by (induction l) (simp_all add: Let_def split: prod.splits)

lemma insertIntoNested_absent:
  "p \<notin> set (all_ids l) \<Longrightarrow> insertIntoNested l n p = (l, False)"
  by (induction l n p rule: insertIntoNested.induct) (auto simp: Let_def split: prod.splits)

lemma filterSubConfigs_absent:
  "t \<notin> set (all_ids l) \<Longrightarrow> filterSubConfigs l t = l"
  by (induction l t rule: filterSubConfigs.induct) (auto simp: Let_def)

lemma filterSubConfigs_append:
  "filterSubConfigs (xs @ ys) t = filterSubConfigs xs t @ filterSubConfigs ys t"
  by (induction xs) (simp_all add: Let_def)

lemma insertIntoNested_present:
  "p \<in> set (all_ids l) \<Longrightarrow> pc_ID n \<notin> set (all_ids l) \<Longrightarrow>
   snd (insertIntoNested l n p) \<and> filterSubConfigs (fst (insertIntoNested l n p)) (pc_ID n) = l"
proof (induction l n p rule: insertIntoNested.induct)
  case (1 newProg parentID)
  then show ?case by simp
next
  case (2 x rest newProg parentID)
  note fresh = "2.prems"(2)
  show ?case
  proof (cases "pc_ID x = parentID")
    case True
    then show ?thesis using fresh
      by (auto simp add: Let_def filterSubConfigs_append filterSubConfigs_absent)
  next
    case nx: False
    show ?thesis
    proof (cases "parentID \<in> set (all_ids (pc_SubConfigs x))")
      case True
      then have ne: "pc_SubConfigs x \<noteq> []" by auto
      from "2.IH"(1)[OF nx ne True] fresh
      have "snd (insertIntoNested (pc_SubConfigs x) newProg parentID)"
        and "filterSubConfigs (fst (insertIntoNested (pc_SubConfigs x) newProg parentID)) (pc_ID newProg) = pc_SubConfigs x"
        by auto
      then show ?thesis using nx ne fresh
        by (auto simp: Let_def filterSubConfigs_absent split: prod.splits)
    next
      case False
      then have a: "insertIntoNested (pc_SubConfigs x) newProg parentID = (pc_SubConfigs x, False)"
        by (rule insertIntoNested_absent)
      from False "2.prems"(1) nx have inrest: "parentID \<in> set (all_ids rest)" by auto
      from fresh have nrest: "pc_ID newProg \<notin> set (all_ids rest)" by auto
      show ?thesis
      proof (cases "pc_SubConfigs x = []")
        case True
        from "2.IH"(3)[OF nx _ inrest nrest] True
        show ?thesis using nx fresh
          by (auto simp: Let_def filterSubConfigs_absent split: prod.splits)
      next
        case ne: False
        from "2.IH"(2)[OF nx ne refl a[symmetric] refl _ inrest nrest]
        show ?thesis using nx fresh a ne
          by (auto simp: Let_def filterSubConfigs_absent split: prod.splits)
      qed
    qed
  qed
qed

text \<open>
  Claim C4. Let \<open>T\<close> be a forest (a finite tree by construction) and \<open>n\<close> a node whose
  identity does not occur in \<open>T\<close>. Appending \<open>n\<close> at top level (the case of an absent or empty
  parent identity in \<open>AddProgramConfig\<close>) and then removing the identity of \<open>n\<close> gives \<open>T\<close>
  back; and for every parent identity \<open>p\<close> that occurs in \<open>T\<close>, \<open>insertIntoSubConfig\<close> reports
  success and removing the identity of \<open>n\<close> from the forest it leaves gives \<open>T\<close> back. The
  round trip does not even need \<open>n\<close> to be childless.
\<close>

theorem insert_remove_roundtrip:
  "pc_ID n \<notin> set (all_ids T) \<Longrightarrow>
   removeNestedProgramConfig (T @ [n]) (pc_ID n) = T \<and>
   (p \<in> set (all_ids T) \<longrightarrow>
      snd (insertIntoSubConfig T n p) \<and>
      removeNestedProgramConfig (fst (insertIntoSubConfig T n p)) (pc_ID n) = T)"
proof (intro conjI impI)
  assume fresh: "pc_ID n \<notin> set (all_ids T)"
  then show "removeNestedProgramConfig (T @ [n]) (pc_ID n) = T"
    by (simp add: removeNested_eq_filterSubConfigs filterSubConfigs_append
        filterSubConfigs_absent Let_def)
  assume "p \<in> set (all_ids T)"
  from insertIntoNested_present [OF this fresh]
  show "snd (insertIntoSubConfig T n p)"
    and "removeNestedProgramConfig (fst (insertIntoSubConfig T n p)) (pc_ID n) = T"
    by (simp_all add: removeNested_eq_filterSubConfigs insertIntoSubConfig_eq)
qed

lemma example_node_sel [simp]:
  "pc_ID (example_node i prog subs) = i"
  "pc_Program (example_node i prog subs) = prog"
  "pc_SubConfigs (example_node i prog subs) = subs"
  "pc_Title (example_node i prog subs) = []"
  "fc_Data (pc_FileContent (example_node i prog subs)) = []"
  "pc_CreatedTimestamp (example_node i prog subs) = 0"
  "pc_UpdatedTimestamp (example_node i prog subs) = 0"
  "set_SubConfigs (example_node i prog subs) subs' = example_node i prog subs'"
  by (simp_all add: example_node_def set_SubConfigs_def)

text \<open>
  The round trip at a concrete forest: \<open>c\<close> is inserted under the nested node \<open>b\<close> of the
  forest \<open>a(b), d\<close>, and at top level.
\<close>

theorem insert_remove_roundtrip_witness:
  "removeNestedProgramConfig
     ([example_node ''a'' ''kitty'' [example_node ''b'' ''wofi'' []], example_node ''d'' ''foot'' []]
      @ [example_node ''c'' ''waybar'' []]) ''c''
   = [example_node ''a'' ''kitty'' [example_node ''b'' ''wofi'' []], example_node ''d'' ''foot'' []]
   \<and> insertIntoSubConfig
        [example_node ''a'' ''kitty'' [example_node ''b'' ''wofi'' []], example_node ''d'' ''foot'' []]
        (example_node ''c'' ''waybar'' []) ''b''
     = ([example_node ''a'' ''kitty'' [example_node ''b'' ''wofi'' [example_node ''c'' ''waybar'' []]],
         example_node ''d'' ''foot'' []], True)
   \<and> removeNestedProgramConfig
        (fst (insertIntoSubConfig
           [example_node ''a'' ''kitty'' [example_node ''b'' ''wofi'' []], example_node ''d'' ''foot'' []]
           (example_node ''c'' ''waybar'' []) ''b'')) ''c''
     = [example_node ''a'' ''kitty'' [example_node ''b'' ''wofi'' []], example_node ''d'' ''foot'' []]"
  using insert_remove_roundtrip
    [where n = "example_node ''c'' ''waybar'' []"
       and T = "[example_node ''a'' ''kitty'' [example_node ''b'' ''wofi'' []], example_node ''d'' ''foot'' []]"
       and p = "''b''"]
  by (simp add: Let_def)

section \<open>Update replaces the first match and nothing else\<close>

lemma replace_eq:
  "pc_ID old = progID \<Longrightarrow> replaceNested old progID u now = forced_payload old u now"
  "pc_ID old = progID \<Longrightarrow> replaceTop old progID u now = forced_payload old u now"
  by (auto simp: replaceNested_def replaceTop_def forced_payload_def set_SubConfigs_def
      set_ID_def set_CreatedTimestamp_def set_UpdatedTimestamp_def)

lemma forced_payload_sel [simp]:
  "pc_ID (forced_payload old u now) = pc_ID old"
  "pc_SubConfigs (forced_payload old u now) = pc_SubConfigs old"
  "pc_CreatedTimestamp (forced_payload old u now) = pc_CreatedTimestamp old"
  "pc_UpdatedTimestamp (forced_payload old u now) = now"
  by (simp_all add: forced_payload_def)

lemma updateProgram_eq:
  "updateProgramConfigRecursive l t u now = updateSubConfigRecursive l t u now"
  by (induction l) (simp_all add: Let_def replace_eq split: prod.splits)

lemma updateSub_absent:
  "t \<notin> set (all_ids l) \<Longrightarrow> updateSubConfigRecursive l t u now = (l, False)"
  by (induction l t u now rule: updateSubConfigRecursive.induct)
     (auto simp: Let_def split: prod.splits)

lemma updateSub_present:
  "t \<in> set (all_ids l) \<Longrightarrow>
   \<exists>pre a old post.
     tree_entries l anc = pre @ (a, shallow old) # post \<and>
     t \<notin> set (map (\<lambda>e. pc_ID (snd e)) pre) \<and> pc_ID old = t \<and>
     all_nodes l ! length pre = old \<and>
     updateSubConfigRecursive l t u now = (fst (updateSubConfigRecursive l t u now), True) \<and>
     tree_entries (fst (updateSubConfigRecursive l t u now)) anc
       = pre @ (a, shallow (forced_payload old u now)) # post \<and>
     all_nodes (fst (updateSubConfigRecursive l t u now)) ! length pre = forced_payload old u now"
proof (induction l t u now arbitrary: anc rule: updateSubConfigRecursive.induct)
  case (1 progID updates now)
  then show ?case by simp
next
  case (2 x rest t u now)
  show ?case
  proof (cases "pc_ID x = t")
    case True
    have "shallow (forced_payload x u now) = shallow (forced_payload (shallow x) u now)"
      by (simp add: shallow_def forced_payload_def set_SubConfigs_def)
    note sh = this
    show ?thesis
      apply (rule exI[of _ "[]"],
               rule exI[of _ anc],
               rule exI[of _ x],
               rule exI[of _ "tree_entries (pc_SubConfigs x) (anc @ [pc_ID x]) @ tree_entries rest anc"])
      using sh True by (simp add: replace_eq)
  next
    case nx: False
    show ?thesis
    proof (cases "t \<in> set (all_ids (pc_SubConfigs x))")
      case True
      then have ne: "pc_SubConfigs x \<noteq> []" by auto
      from "2.IH"(1)[OF nx ne True, of "anc @ [pc_ID x]"]
      obtain pre a old post where
        e: "tree_entries (pc_SubConfigs x) (anc @ [pc_ID x]) = pre @ (a, shallow old) # post"
        and p: "t \<notin> set (map (\<lambda>e. pc_ID (snd e)) pre)" and o: "pc_ID old = t"
        and r: "updateSubConfigRecursive (pc_SubConfigs x) t u now
                 = (fst (updateSubConfigRecursive (pc_SubConfigs x) t u now), True)"
        and e': "tree_entries (fst (updateSubConfigRecursive (pc_SubConfigs x) t u now)) (anc @ [pc_ID x])
                 = pre @ (a, shallow (forced_payload old u now)) # post"
        and n: "all_nodes (pc_SubConfigs x) ! length pre = old"
        and n': "all_nodes (fst (updateSubConfigRecursive (pc_SubConfigs x) t u now)) ! length pre
                 = forced_payload old u now"
        by blast
      have lt: "length pre < length (all_nodes (pc_SubConfigs x))"
        "length pre < length (all_nodes (fst (updateSubConfigRecursive (pc_SubConfigs x) t u now)))"
        by (simp_all add: length_all_nodes [of _ "anc @ [pc_ID x]"] e e')
      obtain subs' where s: "updateSubConfigRecursive (pc_SubConfigs x) t u now = (subs', True)"
        using r by metis
      show ?thesis
        apply (rule exI[of _ "(anc, shallow x) # pre"],
               rule exI[of _ a],
               rule exI[of _ old],
               rule exI[of _ "post @ tree_entries rest anc"])
        using nx ne e p o e' s n n' lt by (simp add: Let_def nth_append)
    next
      case False
      then have a: "updateSubConfigRecursive (pc_SubConfigs x) t u now = (pc_SubConfigs x, False)"
        by (rule updateSub_absent)
      from False "2.prems" nx have inrest: "t \<in> set (all_ids rest)" by auto
      have "\<exists>pre a old post.
         tree_entries rest anc = pre @ (a, shallow old) # post \<and>
         t \<notin> set (map (\<lambda>e. pc_ID (snd e)) pre) \<and> pc_ID old = t \<and>
         all_nodes rest ! length pre = old \<and>
         updateSubConfigRecursive rest t u now = (fst (updateSubConfigRecursive rest t u now), True) \<and>
         tree_entries (fst (updateSubConfigRecursive rest t u now)) anc
           = pre @ (a, shallow (forced_payload old u now)) # post \<and>
         all_nodes (fst (updateSubConfigRecursive rest t u now)) ! length pre = forced_payload old u now"
      proof (cases "pc_SubConfigs x = []")
        case True
        from "2.IH"(3)[OF nx _ inrest] True show ?thesis by simp
      next
        case ne: False
        from "2.IH"(2)[OF nx ne refl a[symmetric] refl _ inrest] show ?thesis by simp
      qed
      then obtain pre a' old post where
        e: "tree_entries rest anc = pre @ (a', shallow old) # post"
        and p: "t \<notin> set (map (\<lambda>e. pc_ID (snd e)) pre)" and o: "pc_ID old = t"
        and r: "updateSubConfigRecursive rest t u now
                 = (fst (updateSubConfigRecursive rest t u now), True)"
        and e': "tree_entries (fst (updateSubConfigRecursive rest t u now)) anc
                 = pre @ (a', shallow (forced_payload old u now)) # post"
        and n: "all_nodes rest ! length pre = old"
        and n': "all_nodes (fst (updateSubConfigRecursive rest t u now)) ! length pre
                 = forced_payload old u now"
        by blast
      obtain rest' where s: "updateSubConfigRecursive rest t u now = (rest', True)"
        using r by metis
      have subids: "t \<notin> set (map (\<lambda>e. pc_ID (snd e)) (tree_entries (pc_SubConfigs x) (anc @ [pc_ID x])))"
        using False by (simp add: entries_ids)
      show ?thesis
        apply (rule exI[of _ "(anc, shallow x) # tree_entries (pc_SubConfigs x) (anc @ [pc_ID x]) @ pre"],
               rule exI[of _ a'],
               rule exI[of _ old],
               rule exI[of _ "post"])
        using nx e p o e' s a subids n n'
        by (simp add: Let_def nth_append length_all_nodes [of _ "anc @ [pc_ID x]"])
    qed
  qed
qed

text \<open>
  Claim C2. If the identity \<open>t\<close> occurs in the forest \<open>l\<close>, \<open>updateProgramConfigRecursive\<close>
  reports success, and the listing of the result is the listing of \<open>l\<close> with one entry
  changed: the first entry (in pre-order) whose identity is \<open>t\<close>. At that position the result
  holds the caller's payload with the identity, the creation timestamp and the children of
  the matched node \<open>old\<close> and with the update timestamp \<open>now\<close> (\<open>forced_payload\<close>); every
  other entry, with its ancestor chain and position, is the same. If \<open>t\<close> does not occur, the
  function reports failure and returns the forest unchanged.
\<close>

theorem update_forces_immutable_fields:
  "(t \<in> set (all_ids l) \<longrightarrow>
      (\<exists>pre a old post.
         tree_entries l [] = pre @ (a, shallow old) # post \<and>
         t \<notin> set (map (\<lambda>e. pc_ID (snd e)) pre) \<and> pc_ID old = t \<and>
         all_nodes l ! length pre = old \<and>
         snd (updateProgramConfigRecursive l t u now) \<and>
         tree_entries (fst (updateProgramConfigRecursive l t u now)) []
           = pre @ (a, shallow (forced_payload old u now)) # post \<and>
         all_nodes (fst (updateProgramConfigRecursive l t u now)) ! length pre
           = forced_payload old u now))
   \<and> (t \<notin> set (all_ids l) \<longrightarrow> updateProgramConfigRecursive l t u now = (l, False))"
proof (intro conjI impI)
  assume "t \<in> set (all_ids l)"
  from updateSub_present [OF this, of "[]" u now]
  obtain pre a old post where
    "tree_entries l [] = pre @ (a, shallow old) # post"
    "t \<notin> set (map (\<lambda>e. pc_ID (snd e)) pre)" "pc_ID old = t"
    "all_nodes l ! length pre = old"
    "updateSubConfigRecursive l t u now = (fst (updateSubConfigRecursive l t u now), True)"
    "tree_entries (fst (updateSubConfigRecursive l t u now)) []
       = pre @ (a, shallow (forced_payload old u now)) # post"
    "all_nodes (fst (updateSubConfigRecursive l t u now)) ! length pre = forced_payload old u now"
    by blast
  then show "\<exists>pre a old post.
         tree_entries l [] = pre @ (a, shallow old) # post \<and>
         t \<notin> set (map (\<lambda>e. pc_ID (snd e)) pre) \<and> pc_ID old = t \<and>
         all_nodes l ! length pre = old \<and>
         snd (updateProgramConfigRecursive l t u now) \<and>
         tree_entries (fst (updateProgramConfigRecursive l t u now)) []
           = pre @ (a, shallow (forced_payload old u now)) # post \<and>
         all_nodes (fst (updateProgramConfigRecursive l t u now)) ! length pre
           = forced_payload old u now"
    unfolding updateProgram_eq by (metis snd_conv)
next
  assume "t \<notin> set (all_ids l)"
  then show "updateProgramConfigRecursive l t u now = (l, False)"
    by (simp add: updateProgram_eq updateSub_absent)
qed

text \<open>
  The update at a concrete forest \<open>a(b(c)), d\<close>: the payload asks for identity \<open>z\<close>, creation
  time 99 and a child of its own; the nested node \<open>b\<close> is replaced, keeping its identity, its
  creation time 0 and its child \<open>c\<close>. An identity that does not occur changes nothing.
\<close>

theorem update_forces_immutable_fields_witness:
  "updateProgramConfigRecursive
     [example_node ''a'' ''kitty'' [example_node ''b'' ''wofi'' [example_node ''c'' ''foot'' []]],
      example_node ''d'' ''rofi'' []]
     ''b''
     (HyprProgramConfig ''z'' ''new title'' ''waybar'' [] [] [] (pc_FileContent (example_node [] [] []))
        [] [example_node ''y'' ''eww'' []] [] True 50 99)
     7
   = ([example_node ''a'' ''kitty''
         [HyprProgramConfig ''b'' ''new title'' ''waybar'' [] [] [] (pc_FileContent (example_node [] [] []))
            [] [example_node ''c'' ''foot'' []] [] True 7 0],
       example_node ''d'' ''rofi'' []], True)
   \<and> updateProgramConfigRecursive
       [example_node ''a'' ''kitty'' [example_node ''b'' ''wofi'' [example_node ''c'' ''foot'' []]],
        example_node ''d'' ''rofi'' []]
       ''x''
       (HyprProgramConfig ''z'' ''new title'' ''waybar'' [] [] [] (pc_FileContent (example_node [] [] []))
          [] [example_node ''y'' ''eww'' []] [] True 50 99)
       7
     = ([example_node ''a'' ''kitty'' [example_node ''b'' ''wofi'' [example_node ''c'' ''foot'' []]],
         example_node ''d'' ''rofi'' []], False)"
proof -
  let ?l = "[example_node ''a'' ''kitty'' [example_node ''b'' ''wofi'' [example_node ''c'' ''foot'' []]],
             example_node ''d'' ''rofi'' []]"
  let ?u = "HyprProgramConfig ''z'' ''new title'' ''waybar'' [] [] [] (pc_FileContent (example_node [] [] []))
              [] [example_node ''y'' ''eww'' []] [] True 50 99"
  have present: "''b'' \<in> set (all_ids ?l)" and absent: "''x'' \<notin> set (all_ids ?l)"
    by simp_all
  from update_forces_immutable_fields [of "''b''" ?l ?u 7] present
  have "snd (updateProgramConfigRecursive ?l ''b'' ?u 7)"
    by blast
  moreover from update_forces_immutable_fields [of "''x''" ?l ?u 7] absent
  have "updateProgramConfigRecursive ?l ''x'' ?u 7 = (?l, False)"
    by blast
  moreover have "fst (updateProgramConfigRecursive ?l ''b'' ?u 7)
    = [example_node ''a'' ''kitty''
         [HyprProgramConfig ''b'' ''new title'' ''waybar'' [] [] [] (pc_FileContent (example_node [] [] []))
            [] [example_node ''c'' ''foot'' []] [] True 7 0],
       example_node ''d'' ''rofi'' []]"
    by (simp add: Let_def replaceNested_def set_SubConfigs_def set_ID_def
        set_CreatedTimestamp_def set_UpdatedTimestamp_def example_node_def)
  ultimately show ?thesis
    by (simp only: prod_eq_iff fst_conv snd_conv simp_thms)
qed

section \<open>A move whose new parent is missing writes nothing\<close>

lemma extractNested_present:
  "t \<in> set (all_ids l) \<Longrightarrow> \<exists>r. snd (extractProgramConfigNested l t) = Some r"
  by (induction l t rule: extractProgramConfigNested.induct)
     (auto simp: Let_def split: prod.splits)

lemma extractNested_absent:
  "t \<notin> set (all_ids l) \<Longrightarrow> extractProgramConfigNested l t = (l, None)"
  by (induction l t rule: extractProgramConfigNested.induct)
     (auto simp: Let_def split: prod.splits)

lemma extractProgramConfig_eq:
  "extractProgramConfig l t = extractProgramConfigNested l t"
  by (induction l) (simp_all add: Let_def split: prod.splits)

lemma insertIntoSubConfig_absent:
  "p \<notin> set (all_ids l) \<Longrightarrow> insertIntoSubConfig l n p = (l, False)"
  by (simp add: insertIntoSubConfig_eq insertIntoNested_absent)

text \<open>
  Claim C3. Let the caller be signed in and be the owner or an administrator, let the
  aggregate \<open>cfg\<close> stored under \<open>configID\<close> contain a node with identity \<open>progID\<close>, and let the
  new parent identity \<open>p\<close> be non-empty and match no node of the list that
  \<open>extractProgramConfig\<close> leaves. Then \<open>MoveProgramConfig\<close> returns the parent-not-found error
  and the collection is exactly the one it was given: the stored aggregate is still \<open>cfg\<close>,
  whose tree contains the node.
\<close>

theorem move_missing_parent_no_write:
  assumes "getUserFromContext ctx = Inr user"
    and "coll configID = Some cfg"
    and "hc_OwnerID cfg = UserID user \<or> isAdmin (Roles user)"
    and "progID \<in> set (all_ids (hc_ProgramConfigs cfg))"
    and "p \<noteq> []"
    and "p \<notin> set (all_ids (fst (extractProgramConfig (hc_ProgramConfigs cfg) progID)))"
  shows "MoveProgramConfig ctx now coll configID progID (Some p)
           = (Some (Errorf (''parent program config with ID '' @ p @ '' not found'')), coll)
         \<and> snd (MoveProgramConfig ctx now coll configID progID (Some p)) configID = Some cfg"
proof -
  obtain remaining r where ex: "extractProgramConfig (hc_ProgramConfigs cfg) progID = (remaining, r)"
    by (cases "extractProgramConfig (hc_ProgramConfigs cfg) progID")
  with extractNested_present [OF assms(4)] obtain removed where r: "r = Some removed"
    by (auto simp: extractProgramConfig_eq)
  from assms(6) ex have "p \<notin> set (all_ids remaining)" by simp
  then have ins: "insertIntoSubConfig remaining n p = (remaining, False)" for n
    by (rule insertIntoSubConfig_absent)
  show ?thesis
    using assms(1,2,3,5) ex r ins
    by (auto simp: MoveProgramConfig_def Let_def)
qed

lemma example_config_sel [simp]:
  "hc_OwnerID (example_config i owner progs) = owner"
  "hc_ProgramConfigs (example_config i owner progs) = progs"
  "hc_Version (example_config i owner progs) = ''1.2.3''"
  "hc_Likes (example_config i owner progs) = 0"
  "hc_Private (example_config i owner progs) = False"
  "hc_Title (example_config i owner progs) = ''my setup''"
  by (simp_all add: example_config_def)

lemma example_user_simps [simp]:
  "getUserFromContext (example_user u) = Inr \<lparr>UserID = u, Roles = [], SignedIn = True\<rparr>"
  by (simp add: example_user_def getUserFromContext_def)

text \<open>
  A concrete run: user \<open>u1\<close> owns the aggregate \<open>cfg1\<close> with the forest \<open>a(b), d\<close> and asks to
  move \<open>b\<close> under \<open>nowhere\<close>. The call fails and the collection is unchanged.
\<close>

theorem move_missing_parent_no_write_witness:
  "MoveProgramConfig (example_user ''u1'') 7
     [''cfg1'' \<mapsto> example_config ''cfg1'' ''u1''
        [example_node ''a'' ''kitty'' [example_node ''b'' ''wofi'' []], example_node ''d'' ''foot'' []]]
     ''cfg1'' ''b'' (Some ''nowhere'')
   = (Some (Errorf ''parent program config with ID nowhere not found''),
      [''cfg1'' \<mapsto> example_config ''cfg1'' ''u1''
        [example_node ''a'' ''kitty'' [example_node ''b'' ''wofi'' []], example_node ''d'' ''foot'' []]])"
  using move_missing_parent_no_write
    [where ctx = "example_user ''u1''" and user = "\<lparr>UserID = ''u1'', Roles = [], SignedIn = True\<rparr>"
       and coll = "[''cfg1'' \<mapsto> example_config ''cfg1'' ''u1''
        [example_node ''a'' ''kitty'' [example_node ''b'' ''wofi'' []], example_node ''d'' ''foot'' []]]"
       and configID = "''cfg1''" and progID = "''b''" and p = "''nowhere''" and now = 7
       and cfg = "example_config ''cfg1'' ''u1''
        [example_node ''a'' ''kitty'' [example_node ''b'' ''wofi'' []], example_node ''d'' ''foot'' []]"]
  by (simp add: Let_def)

section \<open>The handler stores the title under the key private\<close>

lemma changed_fields_private:
  "hc_Private updatesBody \<noteq> hc_Private existing \<Longrightarrow>
   map_of (changed_fields updatesBody existing) ''private'' = Some (BString (hc_Title updatesBody))"
  by (simp add: changed_fields_def Let_def update_conv')

text \<open>
  Claim C9. When the request carries a configuration identifier and a readable body, the
  stored aggregate is found, and the privacy flag of the body differs from the stored one,
  the handler calls \<open>UpdateConfig\<close> exactly once, and in the field set it passes the key
  \<open>private\<close> is bound to the title string of the body (not to a boolean).
\<close>

theorem handler_private_gets_title:
  assumes "configID \<noteq> []"
    and "getConfig configID = Inr existing"
    and "hc_Private updatesBody \<noteq> hc_Private existing"
  shows "\<exists>updates. snd (Handler_UpdateConfig getConfig updateConfig configID (Inr updatesBody))
                     = [(configID, updates)]
                   \<and> map_of updates ''private'' = Some (BString (hc_Title updatesBody))"
proof -
  from changed_fields_private [OF assms(3)]
  have p: "map_of (changed_fields updatesBody existing) ''private''
             = Some (BString (hc_Title updatesBody))" .
  then have "changed_fields updatesBody existing \<noteq> []" by auto
  with assms(1,2) p show ?thesis
    by (auto simp: Handler_UpdateConfig_def Let_def split: option.splits)
qed

text \<open>
  A concrete request: the stored aggregate is public and titled \<open>my setup\<close>, the body asks
  for the same title and \<open>private = true\<close>. The field set passed on is \<open>private \<mapsto> "my setup"\<close>.
\<close>

theorem handler_private_gets_title_witness:
  "snd (Handler_UpdateConfig (\<lambda>i. Inr (example_config i ''u1'' [])) (\<lambda>i u. None) ''cfg1''
          (Inr ((example_config ''cfg1'' ''u1'' [])\<lparr>hc_Private := True\<rparr>)))
   = [(''cfg1'', [(''private'', BString ''my setup'')])]"
proof -
  from handler_private_gets_title
    [where configID = "''cfg1''" and getConfig = "\<lambda>i. Inr (example_config i ''u1'' [])"
       and existing = "example_config ''cfg1'' ''u1'' []"
       and updatesBody = "(example_config ''cfg1'' ''u1'' [])\<lparr>hc_Private := True\<rparr>"
       and updateConfig = "\<lambda>i u. None"]
  obtain updates where
    "snd (Handler_UpdateConfig (\<lambda>i. Inr (example_config i ''u1'' [])) (\<lambda>i u. None) ''cfg1''
          (Inr ((example_config ''cfg1'' ''u1'' [])\<lparr>hc_Private := True\<rparr>))) = [(''cfg1'', updates)]"
    by auto
  moreover have "changed_fields ((example_config ''cfg1'' ''u1'' [])\<lparr>hc_Private := True\<rparr>)
                   (example_config ''cfg1'' ''u1'' []) = [(''private'', BString ''my setup'')]"
    by (simp add: changed_fields_def example_config_def StringSlicesEqual_def)
  ultimately show ?thesis
    by (auto simp: Handler_UpdateConfig_def)
qed

section \<open>Favoriting and unfavoriting keep the like counter in step\<close>

lemma DeleteOne_none:
  "\<not> list_ex P xs \<Longrightarrow> DeleteOne P xs = (xs, 0)"
  by (induction xs) (auto simp: Let_def)

lemma DeleteOne_some:
  "list_ex P xs \<Longrightarrow>
   \<exists>x ys. DeleteOne P xs = (ys, 1) \<and> P x \<and>
     (\<forall>Q. length (filter Q xs) = length (filter Q ys) + (if Q x then 1 else 0))"
proof (induction xs)
  case Nil
  then show ?case by simp
next
  case (Cons a xs)
  show ?case
  proof (cases "P a")
    case True
    then show ?thesis by (intro exI[of _ a] exI[of _ xs]) simp
  next
    case False
    with Cons obtain x ys where "DeleteOne P xs = (ys, 1)" "P x"
      "\<forall>Q. length (filter Q xs) = length (filter Q ys) + (if Q x then 1 else 0)"
      by auto
    with False show ?thesis
      by (intro exI[of _ x] exI[of _ "a # ys"]) simp
  qed
qed

lemma favorite_preserves:
  "likes_consistent m \<Longrightarrow> update_error faults = None \<Longrightarrow>
   likes_consistent (snd (FavoriteConfig faults m ctx now configID))"
  by (auto simp: likes_consistent_def FavoriteConfig_def favorites_of_def inc_likes_def Let_def
      split: sum.splits option.splits)

lemma unfavorite_preserves:
  assumes "likes_consistent m" and "update_error faults = None"
  shows "likes_consistent (snd (UnfavoriteConfig faults m ctx configID))"
proof (cases "getUserFromContext ctx")
  case (Inl e)
  then show ?thesis using assms by (simp add: UnfavoriteConfig_def)
next
  case (Inr user)
  let ?P = "favorite_matches (UserID user) configID"
  show ?thesis
  proof (cases "delete_error faults = None \<and> list_ex ?P (FavoritesCollection m)")
    case False
    then show ?thesis using assms Inr
      by (auto simp: UnfavoriteConfig_def DeleteOne_none likes_consistent_def favorites_of_def)
  next
    case True
    from DeleteOne_some [of ?P "FavoritesCollection m"] True obtain x favs where
      dd: "DeleteOne ?P (FavoritesCollection m) = (favs, 1)" and px: "?P x"
      and len: "\<And>Q. length (filter Q (FavoritesCollection m))
                      = length (filter Q favs) + (if Q x then 1 else 0)"
      by blast
    from px have cid: "uf_ConfigID x = configID" by (simp add: favorite_matches_def)
    show ?thesis using assms Inr dd True
      by (auto simp: UnfavoriteConfig_def likes_consistent_def favorites_of_def inc_likes_def
          Let_def len cid split: option.splits)
  qed
qed

text \<open>
  Claim C10, as the code has it. Each operation makes two separate store writes, so the
  invariant (every stored aggregate's like counter equals the number of favorite records
  referencing it) is preserved by \<open>FavoriteConfig\<close> and \<open>UnfavoriteConfig\<close> in every run in
  which the \<open>$inc\<close> update does not fail, whatever the other store calls do. For a signed-in
  user, favoriting a pair that already has a record returns nil and changes nothing (no
  record inserted, no increment) when \<open>FindOne\<close> does not fail, and unfavoriting a pair
  without a record returns nil and changes nothing (no decrement) when \<open>DeleteOne\<close> does not
  fail.
\<close>

theorem favorites_keep_like_counter:
  "(likes_consistent m \<and> update_error faults = None \<longrightarrow>
      likes_consistent (snd (FavoriteConfig faults m ctx now configID)) \<and>
      likes_consistent (snd (UnfavoriteConfig faults m ctx configID)))
   \<and> (getUserFromContext ctx = Inr user \<longrightarrow>
        (list_ex (favorite_matches (UserID user) configID) (FavoritesCollection m)
           \<and> find_error faults = None
           \<longrightarrow> FavoriteConfig faults m ctx now configID = (None, m)) \<and>
        (\<not> list_ex (favorite_matches (UserID user) configID) (FavoritesCollection m)
           \<and> delete_error faults = None
           \<longrightarrow> UnfavoriteConfig faults m ctx configID = (None, m)))"
proof (intro conjI impI)
  assume inv: "likes_consistent m \<and> update_error faults = None"
  then show "likes_consistent (snd (FavoriteConfig faults m ctx now configID))"
    by (simp add: favorite_preserves)
  from inv show "likes_consistent (snd (UnfavoriteConfig faults m ctx configID))"
    by (simp add: unfavorite_preserves)
next
  assume "getUserFromContext ctx = Inr user"
    and "list_ex (favorite_matches (UserID user) configID) (FavoritesCollection m)
           \<and> find_error faults = None"
  then show "FavoriteConfig faults m ctx now configID = (None, m)"
    by (simp add: FavoriteConfig_def)
next
  assume "getUserFromContext ctx = Inr user"
    and "\<not> list_ex (favorite_matches (UserID user) configID) (FavoritesCollection m)
           \<and> delete_error faults = None"
  then show "UnfavoriteConfig faults m ctx configID = (None, m)"
    by (simp add: UnfavoriteConfig_def DeleteOne_none)
qed

text \<open>
  A concrete state: the aggregate \<open>cfg1\<close> has one like, from \<open>u1\<close>. With no store failure, a
  second favorite by \<open>u1\<close> and an unfavorite by \<open>u2\<close> change nothing; a favorite by \<open>u2\<close> and
  an unfavorite by \<open>u1\<close> move the counter to 2 and to 0 together with the records.
\<close>

lemma example_state_consistent: "likes_consistent example_state"
  by (simp add: likes_consistent_def example_state_def favorites_of_def)

theorem favorites_keep_like_counter_witness:
  "likes_consistent example_state
   \<and> FavoriteConfig no_faults example_state (example_user ''u1'') 7 ''cfg1'' = (None, example_state)
   \<and> UnfavoriteConfig no_faults example_state (example_user ''u2'') ''cfg1'' = (None, example_state)
   \<and> likes_consistent (snd (FavoriteConfig no_faults example_state (example_user ''u2'') 7 ''cfg1''))
   \<and> map_option hc_Likes
        (Collection (snd (FavoriteConfig no_faults example_state (example_user ''u2'') 7 ''cfg1''))
           ''cfg1'')
      = Some 2
   \<and> likes_consistent (snd (UnfavoriteConfig no_faults example_state (example_user ''u1'') ''cfg1''))
   \<and> map_option hc_Likes
        (Collection (snd (UnfavoriteConfig no_faults example_state (example_user ''u1'') ''cfg1''))
           ''cfg1'')
      = Some 0"
proof -
  note c = example_state_consistent
  have nf: "update_error no_faults = None" "find_error no_faults = None"
    "delete_error no_faults = None" "insert_error no_faults = None"
    by (simp_all add: no_faults_def)
  have a: "list_ex (favorite_matches ''u1'' ''cfg1'') (FavoritesCollection example_state)"
    and b: "\<not> list_ex (favorite_matches ''u2'' ''cfg1'') (FavoritesCollection example_state)"
    by (simp_all add: example_state_def favorite_matches_def)
  from favorites_keep_like_counter
    [where m = example_state and faults = no_faults and ctx = "example_user ''u1''"
       and configID = "''cfg1''" and now = 7
       and user = "\<lparr>UserID = ''u1'', Roles = [], SignedIn = True\<rparr>"] a c nf
  have 1: "FavoriteConfig no_faults example_state (example_user ''u1'') 7 ''cfg1''
             = (None, example_state)"
    and 2: "likes_consistent (snd (UnfavoriteConfig no_faults example_state (example_user ''u1'') ''cfg1''))"
    by simp_all
  from favorites_keep_like_counter
    [where m = example_state and faults = no_faults and ctx = "example_user ''u2''"
       and configID = "''cfg1''" and now = 7
       and user = "\<lparr>UserID = ''u2'', Roles = [], SignedIn = True\<rparr>"] b c nf
  have 3: "UnfavoriteConfig no_faults example_state (example_user ''u2'') ''cfg1''
             = (None, example_state)"
    and 4: "likes_consistent (snd (FavoriteConfig no_faults example_state (example_user ''u2'') 7 ''cfg1''))"
    by simp_all
  have 5: "map_option hc_Likes
        (Collection (snd (FavoriteConfig no_faults example_state (example_user ''u2'') 7 ''cfg1''))
           ''cfg1'')
      = Some 2"
    by (simp add: FavoriteConfig_def example_state_def favorite_matches_def inc_likes_def
        no_faults_def)
  have 6: "map_option hc_Likes
        (Collection (snd (UnfavoriteConfig no_faults example_state (example_user ''u1'') ''cfg1''))
           ''cfg1'')
      = Some 0"
    by (simp add: UnfavoriteConfig_def example_state_def favorite_matches_def inc_likes_def
        no_faults_def)
  from c 1 2 3 4 5 6 show ?thesis by blast
qed

text \<open>
  The claim as it was stated fails when a store call fails. In the state above, let the
  \<open>$inc\<close> update fail: \<open>u2\<close>'s favorite is inserted but the counter stays at 1, and \<open>u1\<close>'s
  favorite is deleted but the counter stays at 1; both calls return the store's error and
  leave the invariant broken. And when \<open>FindOne\<close> fails, favoriting the already-favorited
  pair does not return success: the insert meets the unique index.
\<close>

theorem favorites_store_failure_counterexample:
  "likes_consistent example_state
   \<and> fst (FavoriteConfig (no_faults\<lparr>update_error := Some (Errorf ''write failed'')\<rparr>)
           example_state (example_user ''u2'') 7 ''cfg1'') = Some (Errorf ''write failed'')
   \<and> \<not> likes_consistent
         (snd (FavoriteConfig (no_faults\<lparr>update_error := Some (Errorf ''write failed'')\<rparr>)
                 example_state (example_user ''u2'') 7 ''cfg1''))
   \<and> fst (UnfavoriteConfig (no_faults\<lparr>update_error := Some (Errorf ''write failed'')\<rparr>)
           example_state (example_user ''u1'') ''cfg1'') = Some (Errorf ''write failed'')
   \<and> \<not> likes_consistent
         (snd (UnfavoriteConfig (no_faults\<lparr>update_error := Some (Errorf ''write failed'')\<rparr>)
                 example_state (example_user ''u1'') ''cfg1''))
   \<and> FavoriteConfig (no_faults\<lparr>find_error := Some (Errorf ''read failed'')\<rparr>)
        example_state (example_user ''u1'') 7 ''cfg1'' = (Some duplicate_key_error, example_state)"
  by (simp add: example_state_consistent)
     (simp add: FavoriteConfig_def UnfavoriteConfig_def example_state_def favorite_matches_def
        no_faults_def likes_consistent_def favorites_of_def)

section \<open>The visibility clause hides private aggregates from other callers\<close>

lemma buildSearchFilter_shape:
  "\<exists>rest. buildSearchFilter filters user =
     (''$or'', BArray (BDoc [(''private'', BBool False)]
        # (case user of None \<Rightarrow> [] | Some u \<Rightarrow> [BDoc [(''owner_id'', BString (UserID u))]]))) # rest"
  by (cases user) (simp_all add: buildSearchFilter_def Let_def)

lemma field_matches_private:
  "field_matches rx c ''private'' (BBool b) = (hc_Private c = b)"
  by (auto simp: field_matches_def field_value_def value_matches_def)

lemma field_matches_owner:
  "field_matches rx c ''owner_id'' (BString u) = (hc_OwnerID c = u)"
  by (auto simp: field_matches_def field_value_def value_matches_def)

text \<open>
  Claim C7. Whatever the filter specification asks for (also \<open>private == true\<close>), the filter
  built by \<open>buildSearchFilter\<close> does not match an aggregate whose privacy flag is set unless a
  caller identity is available and equals the aggregate's owner: it is false for every
  private aggregate when no caller is given, and false for every private aggregate owned
  by someone else when one is given.
\<close>

theorem private_hidden_from_non_owner:
  assumes "hc_Private c"
    and "\<forall>u. user = Some u \<longrightarrow> hc_OwnerID c \<noteq> UserID u"
  shows "\<not> query_matches rx c (buildSearchFilter filters user)"
proof -
  obtain rest where shape: "buildSearchFilter filters user =
     (''$or'', BArray (BDoc [(''private'', BBool False)]
        # (case user of None \<Rightarrow> [] | Some u \<Rightarrow> [BDoc [(''owner_id'', BString (UserID u))]]))) # rest"
    using buildSearchFilter_shape by blast
  have "\<not> some_matches rx c (BDoc [(''private'', BBool False)]
        # (case user of None \<Rightarrow> [] | Some u \<Rightarrow> [BDoc [(''owner_id'', BString (UserID u))]]))"
    using assms by (cases user) (simp_all add: field_matches_private field_matches_owner)
  then show ?thesis
    unfolding shape by simp
qed

text \<open>
  The example of the specification: the filter \<open>{private: true}\<close> and the private aggregate of
  \<open>u1\<close>. It is not matched for the caller \<open>u2\<close> nor without a caller, and it is matched for
  \<open>u1\<close>.
\<close>

theorem private_hidden_from_non_owner_witness:
  "\<not> query_matches (\<lambda>pat opts s. True) ((example_config ''cfg1'' ''u1'' [])\<lparr>hc_Private := True\<rparr>)
       (buildSearchFilter
          \<lparr>f_Query = [], f_Tags = [], f_Program = [], f_OwnerID = [], f_Private = Some True,
           f_UpdatedFrom = None, f_UpdatedTo = None\<rparr>
          (Some \<lparr>UserID = ''u2'', Roles = [], SignedIn = True\<rparr>))
   \<and> \<not> query_matches (\<lambda>pat opts s. True) ((example_config ''cfg1'' ''u1'' [])\<lparr>hc_Private := True\<rparr>)
       (buildSearchFilter
          \<lparr>f_Query = [], f_Tags = [], f_Program = [], f_OwnerID = [], f_Private = Some True,
           f_UpdatedFrom = None, f_UpdatedTo = None\<rparr>
          None)
   \<and> query_matches (\<lambda>pat opts s. True) ((example_config ''cfg1'' ''u1'' [])\<lparr>hc_Private := True\<rparr>)
       (buildSearchFilter
          \<lparr>f_Query = [], f_Tags = [], f_Program = [], f_OwnerID = [], f_Private = Some True,
           f_UpdatedFrom = None, f_UpdatedTo = None\<rparr>
          (Some \<lparr>UserID = ''u1'', Roles = [], SignedIn = True\<rparr>))"
proof (intro conjI)
  let ?c = "(example_config ''cfg1'' ''u1'' [])\<lparr>hc_Private := True\<rparr>"
  let ?f = "\<lparr>f_Query = [], f_Tags = [], f_Program = [], f_OwnerID = [], f_Private = Some True,
           f_UpdatedFrom = None, f_UpdatedTo = None\<rparr>"
  show "\<not> query_matches (\<lambda>pat opts s. True) ?c
          (buildSearchFilter ?f (Some \<lparr>UserID = ''u2'', Roles = [], SignedIn = True\<rparr>))"
    by (rule private_hidden_from_non_owner) simp_all
  show "\<not> query_matches (\<lambda>pat opts s. True) ?c (buildSearchFilter ?f None)"
    by (rule private_hidden_from_non_owner) simp_all
  show "query_matches (\<lambda>pat opts s. True) ?c
          (buildSearchFilter ?f (Some \<lparr>UserID = ''u1'', Roles = [], SignedIn = True\<rparr>))"
    by (simp add: buildSearchFilter_def Let_def field_matches_private field_matches_owner)
qed

section \<open>The extractor on the example text; deduplication\<close>

lemma remdups_snoc: "remdups (ys @ [x]) = filter (\<lambda>y. y \<noteq> x) (remdups ys) @ [x]"
  by (induction ys) auto

lemma firsts_Cons:
  "rev (remdups (rev (x # xs))) = x # filter (\<lambda>y. y \<noteq> x) (rev (remdups (rev xs)))"
  by (simp add: remdups_snoc rev_filter)

lemma dedup_from_firsts:
  "dedup_from seen xs = filter (\<lambda>y. y \<notin> set seen) (rev (remdups (rev xs)))"
proof (induction xs arbitrary: seen)
  case Nil
  show ?case by simp
next
  case (Cons x xs)
  show ?case
    unfolding firsts_Cons
    by (auto simp: Cons.IH intro: filter_cong)
qed

lemma DeduplicateStrings_firsts: "DeduplicateStrings xs = rev (remdups (rev xs))"
  by (simp add: DeduplicateStrings_def dedup_from_firsts)

text \<open>
  Claim C5. On the example text (a variable assignment, an \<open>exec-once\<close> line that uses the
  variable, an \<open>exec\<close> line, a commented \<open>exec\<close> line) \<open>ExtractExecOnceCommands\<close> returns
  \<open>kitty\<close>, \<open>firefox\<close> in this order. With one more line \<open>exec = kitty\<close> the collected commands
  are \<open>kitty\<close>, \<open>firefox\<close>, \<open>kitty\<close> and the result is still \<open>kitty\<close>, \<open>firefox\<close>. For every
  input the result has no duplicates, holds exactly the collected commands, and lists them
  in the order of their first occurrences (the reverse of \<open>remdups\<close>, which keeps last
  occurrences, on the reversed list).
\<close>

theorem extract_example_and_dedup:
  "ExtractExecOnceCommands example_text = [''kitty'', ''firefox'']
   \<and> ExtractExecOnceCommands (example_text @ [CHR 0x0A] @ ''exec = kitty'') = [''kitty'', ''firefox'']
   \<and> collected_commands (example_text @ [CHR 0x0A] @ ''exec = kitty'') = [''kitty'', ''firefox'', ''kitty'']
   \<and> (\<forall>input. distinct (ExtractExecOnceCommands input)
          \<and> set (ExtractExecOnceCommands input) = set (collected_commands input)
          \<and> ExtractExecOnceCommands input = rev (remdups (rev (collected_commands input))))"
proof (intro conjI allI)
  show "ExtractExecOnceCommands example_text = [''kitty'', ''firefox'']"
    by code_simp
  show "ExtractExecOnceCommands (example_text @ [CHR 0x0A] @ ''exec = kitty'') = [''kitty'', ''firefox'']"
    by code_simp
  show "collected_commands (example_text @ [CHR 0x0A] @ ''exec = kitty'') = [''kitty'', ''firefox'', ''kitty'']"
    by code_simp
  fix input
  show "ExtractExecOnceCommands input = rev (remdups (rev (collected_commands input)))"
    by (simp add: ExtractExecOnceCommands_def DeduplicateStrings_firsts)
  then show "distinct (ExtractExecOnceCommands input)"
    and "set (ExtractExecOnceCommands input) = set (collected_commands input)"
    by simp_all
qed

section \<open>Node validation against the whitelist and the gateway\<close>

lemma validate_static_only:
  "(list_all (\<lambda>n. pc_Program n \<in> set validPrograms \<and> fc_Data (pc_FileContent n) = [])
      (all_nodes [pc]) \<longrightarrow> pc_Validate chk pc = None)"
  "(list_all (\<lambda>n. pc_Program n \<in> set validPrograms \<and> fc_Data (pc_FileContent n) = [])
      (all_nodes subs) \<longrightarrow> validate_subs chk i subs = None)"
  by (induction chk pc and chk i subs rule: pc_Validate_validate_subs.induct) simp_all

text \<open>
  Claim C6, as the code has it. A node whose program is not in the static whitelist and
  for which the gateway returns an error fails validation with the error
  \<open>invalid or unsupported program name: <program>\<close> (whether or not it carries file content).
  A node that carries no file content and whose program is in the static whitelist passes,
  for every gateway, provided the same holds for every node below it: validation descends
  into the children, so the outcome for a node with children depends on them.
\<close>

theorem validate_whitelist_or_gateway:
  "(pc_Program pc \<notin> set validPrograms \<and> checkProgramExists (pc_Program pc) \<noteq> None \<longrightarrow>
      pc_Validate checkProgramExists pc
        = Some (Errorf (''invalid or unsupported program name: '' @ pc_Program pc)))
   \<and> (list_all (\<lambda>n. pc_Program n \<in> set validPrograms \<and> fc_Data (pc_FileContent n) = [])
         (all_nodes [pc]) \<longrightarrow>
       (\<forall>gateway. pc_Validate gateway pc = None))"
  using validate_static_only(1) [of pc] by simp

text \<open>
  The examples of the specification: \<open>unknownapp\<close> with a gateway that rejects everything,
  and \<open>kitty\<close> (here with a whitelisted child), which passes with that same gateway.
\<close>

theorem validate_whitelist_or_gateway_witness:
  "pc_Validate (\<lambda>name. Some ErrNotFound) (example_node ''n1'' ''unknownapp'' [])
     = Some (Errorf ''invalid or unsupported program name: unknownapp'')
   \<and> pc_Validate (\<lambda>name. Some ErrNotFound)
       (example_node ''n2'' ''kitty'' [example_node ''n3'' ''waybar'' []]) = None"
  using validate_whitelist_or_gateway
      [of "example_node ''n1'' ''unknownapp'' []" "\<lambda>name. Some ErrNotFound"]
    validate_whitelist_or_gateway
      [of "example_node ''n2'' ''kitty'' [example_node ''n3'' ''waybar'' []]" "\<lambda>name. Some ErrNotFound"]
  by (simp add: validPrograms_def)

text \<open>
  The claim as it was stated fails: the node \<open>n\<close> declares the whitelisted program \<open>kitty\<close> and
  carries no file content, but its child declares \<open>unknownapp\<close>. Validation of \<open>n\<close> fails when
  the gateway rejects \<open>unknownapp\<close> and succeeds when the gateway accepts it.
\<close>

theorem validate_whitelisted_parent_counterexample:
  "pc_Program (example_node ''n'' ''kitty'' [example_node ''m'' ''unknownapp'' []]) \<in> set validPrograms
   \<and> fc_Data (pc_FileContent (example_node ''n'' ''kitty'' [example_node ''m'' ''unknownapp'' []])) = []
   \<and> pc_Validate (\<lambda>name. Some ErrNotFound)
        (example_node ''n'' ''kitty'' [example_node ''m'' ''unknownapp'' []])
     = Some (Errorf
         ''sub-config #1 failed validation: invalid or unsupported program name: unknownapp'')
   \<and> pc_Validate (\<lambda>name. None)
        (example_node ''n'' ''kitty'' [example_node ''m'' ''unknownapp'' []]) = None"
  by code_simp

section \<open>The patch bump and the version a field update stores\<close>

lemma digit_char_table:
  "list_all (\<lambda>d. is_digit (digit_char d) \<and> (of_char (digit_char d) :: nat) - 48 = d
                 \<and> digit_char d \<noteq> CHR ''-'' \<and> digit_char d \<noteq> CHR ''+'')
     [0, 1, 2, 3, 4, 5, 6, 7, 8, 9]"
  by (simp add: is_digit_def digit_char_def)

lemma digit_char_ok:
  assumes "d < 10"
  shows "is_digit (digit_char d) \<and> (of_char (digit_char d) :: nat) - 48 = d"
    and "digit_char d \<noteq> CHR ''-'' \<and> digit_char d \<noteq> CHR ''+''"
proof -
  from assms have "d \<in> set [0, 1, 2, 3, 4, 5, 6, 7, 8, 9]" by auto
  with digit_char_table
  show "is_digit (digit_char d) \<and> (of_char (digit_char d) :: nat) - 48 = d"
    and "digit_char d \<noteq> CHR ''-'' \<and> digit_char d \<noteq> CHR ''+''"
    unfolding list_all_iff by blast+
qed

lemma parse_digits_append:
  "parse_digits n (xs @ ys) = (case parse_digits n xs of None \<Rightarrow> None | Some m \<Rightarrow> parse_digits m ys)"
  by (induction xs arbitrary: n) simp_all

lemma parse_digits_digits: "parse_digits 0 (digits n) = Some n"
proof (induction n rule: digits.induct)
  case (1 n)
  show ?case
  proof (cases "n < 10")
    case True
    then show ?thesis using digit_char_ok(1) [of n] by (simp add: digits.simps [of n])
  next
    case False
    then have "parse_digits 0 (digits (n div 10)) = Some (n div 10)" using 1 by simp
    moreover have "n mod 10 < 10" by simp
    note digit_char_ok(1) [OF this]
    ultimately show ?thesis using False
      by (simp add: digits.simps [of n] parse_digits_append)
  qed
qed

lemma digits_hd: "\<exists>d rest. d < 10 \<and> digits n = digit_char d # rest"
proof (induction n rule: digits.induct)
  case (1 n)
  show ?case
  proof (cases "n < 10")
    case True
    then show ?thesis by (auto simp: digits.simps [of n])
  next
    case False
    with 1 obtain d rest where "d < 10" "digits (n div 10) = digit_char d # rest" by auto
    with False show ?thesis by (auto simp: digits.simps [of n])
  qed
qed

lemma Atoi_Sprint_d:
  assumes "- (2 ^ 63) \<le> i" "i \<le> 2 ^ 63 - 1"
  shows "Atoi (Sprint_d i) = Some i"
proof (cases "i < 0")
  case True
  obtain d rest where d: "d < 10" "digits (nat (- i)) = digit_char d # rest"
    using digits_hd by blast
  have "parse_digits 0 (digit_char d # rest) = Some (nat (- i))"
    using parse_digits_digits [of "nat (- i)"] d by simp
  then show ?thesis using True assms d
    by (simp add: Atoi_def Sprint_d_def del: parse_digits.simps)
next
  case False
  obtain d rest where d: "d < 10" "digits (nat i) = digit_char d # rest"
    using digits_hd by blast
  have "parse_digits 0 (digit_char d # rest) = Some (nat i)"
    using parse_digits_digits [of "nat i"] d by simp
  then show ?thesis using False assms d digit_char_ok(2) [OF d(1)]
    by (simp add: Atoi_def Sprint_d_def del: parse_digits.simps)
qed

lemma Split_no_sep: "sep \<notin> set a \<Longrightarrow> Split a sep = [a]"
  by (induction a) auto

lemma Split_at_sep: "sep \<notin> set a \<Longrightarrow> Split (a @ sep # rest) sep = a # Split rest sep"
  by (induction a) auto

lemma Split_three:
  "sep \<notin> set a \<Longrightarrow> sep \<notin> set b \<Longrightarrow> sep \<notin> set c \<Longrightarrow>
   Split (a @ [sep] @ b @ [sep] @ c) sep = [a, b, c]"
  by (simp add: Split_at_sep Split_no_sep)

lemma bump_three_parts:
  assumes "CHR ''.'' \<notin> set major" "CHR ''.'' \<notin> set minor" "CHR ''.'' \<notin> set p"
    and "Atoi p = Some n" and "n < 2 ^ 63 - 1"
  shows "bumpPatchVersion (major @ ''.'' @ minor @ ''.'' @ p)
           = major @ ''.'' @ minor @ ''.'' @ Sprint_d (n + 1)"
    and "Atoi (Sprint_d (n + 1)) = Some (n + 1)"
proof -
  from assms(4) have lo: "- (2 ^ 63) \<le> n"
    by (auto simp: Atoi_def Let_def split: list.splits option.splits if_splits)
  with assms(5) have w: "wrap64 (n + 1) = n + 1"
    by (simp add: wrap64_def)
  from Split_three [OF assms(1-3)] assms(4) w
  show "bumpPatchVersion (major @ ''.'' @ minor @ ''.'' @ p)
           = major @ ''.'' @ minor @ ''.'' @ Sprint_d (n + 1)"
    by (simp add: bumpPatchVersion_def)
  from lo assms(5) show "Atoi (Sprint_d (n + 1)) = Some (n + 1)"
    by (intro Atoi_Sprint_d) simp_all
qed

lemma bump_malformed:
  "length (Split v (CHR ''.'')) \<noteq> 3 \<Longrightarrow> bumpPatchVersion v = ''0.0.1''"
  by (auto simp: bumpPatchVersion_def split: list.splits)

lemma decode_field_version:
  "decode_field u k d r = Inr c' \<Longrightarrow>
   (\<And>v f c. d v = Some f \<Longrightarrow> hc_Version (f c) = hc_Version c) \<Longrightarrow>
   \<exists>c. r = Inr c \<and> hc_Version c' = hc_Version c"
  by (auto simp: decode_field_def split: sum.splits option.splits)

lemma decode_field_sets_version:
  "decode_field u ''version''
     (\<lambda>v. case v of BString s \<Rightarrow> Some (\<lambda>c. c\<lparr>hc_Version := s\<rparr>) | _ \<Rightarrow> None) r = Inr c' \<Longrightarrow>
   map_of u ''version'' = Some (BString s) \<Longrightarrow> hc_Version c' = s"
  by (auto simp: decode_field_def split: sum.splits option.splits)

lemma unmarshal_merged_version:
  assumes "unmarshal_merged existing u = Inr c'" and "map_of u ''version'' = Some (BString s)"
  shows "hc_Version c' = s"
proof -
  from assms(1) [unfolded unmarshal_merged_def]
  obtain c1 where 1: "decode_field u ''tags''
        (\<lambda>v. case v of BStrings ts \<Rightarrow> Some (\<lambda>c. c\<lparr>hc_Tags := ts\<rparr>) | _ \<Rightarrow> None)
     (decode_field u ''version''
        (\<lambda>v. case v of BString s \<Rightarrow> Some (\<lambda>c. c\<lparr>hc_Version := s\<rparr>) | _ \<Rightarrow> None)
     (decode_field u ''private''
        (\<lambda>v. case v of BBool b \<Rightarrow> Some (\<lambda>c. c\<lparr>hc_Private := b\<rparr>) | _ \<Rightarrow> None)
     (decode_field u ''gallery_pictures''
        (\<lambda>v. case v of BStrings ps \<Rightarrow> Some (\<lambda>c. c\<lparr>hc_GalleryPictures := ps\<rparr>) | _ \<Rightarrow> None)
     (decode_field u ''description''
        (\<lambda>v. case v of BString s \<Rightarrow> Some (\<lambda>c. c\<lparr>hc_Description := s\<rparr>) | _ \<Rightarrow> None)
     (decode_field u ''title''
        (\<lambda>v. case v of BString s \<Rightarrow> Some (\<lambda>c. c\<lparr>hc_Title := s\<rparr>) | _ \<Rightarrow> None)
     (Inr existing)))))) = Inr c1" and v1: "hc_Version c' = hc_Version c1"
    by (rule decode_field_version [THEN exE]) (auto split: bson.splits)
  from 1 obtain c2 where 2: "decode_field u ''version''
        (\<lambda>v. case v of BString s \<Rightarrow> Some (\<lambda>c. c\<lparr>hc_Version := s\<rparr>) | _ \<Rightarrow> None)
     (decode_field u ''private''
        (\<lambda>v. case v of BBool b \<Rightarrow> Some (\<lambda>c. c\<lparr>hc_Private := b\<rparr>) | _ \<Rightarrow> None)
     (decode_field u ''gallery_pictures''
        (\<lambda>v. case v of BStrings ps \<Rightarrow> Some (\<lambda>c. c\<lparr>hc_GalleryPictures := ps\<rparr>) | _ \<Rightarrow> None)
     (decode_field u ''description''
        (\<lambda>v. case v of BString s \<Rightarrow> Some (\<lambda>c. c\<lparr>hc_Description := s\<rparr>) | _ \<Rightarrow> None)
     (decode_field u ''title''
        (\<lambda>v. case v of BString s \<Rightarrow> Some (\<lambda>c. c\<lparr>hc_Title := s\<rparr>) | _ \<Rightarrow> None)
     (Inr existing))))) = Inr c2" and v2: "hc_Version c1 = hc_Version c2"
    by (rule decode_field_version [THEN exE]) (auto split: bson.splits)
  from decode_field_sets_version [OF 2 assms(2)] v1 v2 show ?thesis by simp
qed

lemma UpdateConfig_writes_version:
  assumes "coll id' = Some existing"
    and "UpdateConfig chk ctx now coll id' updates = (None, coll')"
  shows "\<exists>stored. coll' id' = Some stored
           \<and> hc_Version stored = bumpPatchVersion (hc_Version existing)"
proof -
  let ?u = "AList.delete ''program_configs'' (AList.delete ''created_timestamp''
             (AList.delete ''likes'' (AList.delete ''owner_id'' (AList.delete ''_id''
               (AList.update ''updated_timestamp'' (BTime now)
                 (AList.update ''version'' (BString (bumpPatchVersion (hc_Version existing)))
                    updates))))))"
  have m: "map_of ?u ''version'' = Some (BString (bumpPatchVersion (hc_Version existing)))"
    by (simp add: delete_conv' update_conv')
  from assms obtain mergedCfg where
    d: "unmarshal_merged existing ?u = Inr mergedCfg" and c: "coll' = coll(id' \<mapsto> mergedCfg)"
    by (auto simp: UpdateConfig_def Let_def split: sum.splits option.splits if_splits)
  from unmarshal_merged_version [OF d m] c show ?thesis by simp
qed

text \<open>
  Claim C8, as the code has it (64-bit \<open>int\<close>). \<open>bumpPatchVersion\<close> maps \<open>1.2.3\<close> to \<open>1.2.4\<close>.
  For a version of three components whose patch component \<open>strconv.Atoi\<close> reads as \<open>n\<close>,
  with \<open>n\<close> below the largest \<open>int\<close> (\<open>2^63 - 1\<close>), the result keeps the first two components
  and its patch component is the decimal rendering of \<open>n + 1\<close>, which reads back as \<open>n + 1\<close>.
  A version that does not split into exactly three components gives \<open>0.0.1\<close>. And when
  \<open>UpdateConfig\<close> returns nil, the aggregate stored under the identifier has the bumped
  version of the aggregate that was stored before.
\<close>

theorem bumpPatchVersion_increments_patch:
  "bumpPatchVersion ''1.2.3'' = ''1.2.4''
   \<and> (CHR ''.'' \<notin> set major \<and> CHR ''.'' \<notin> set minor \<and> CHR ''.'' \<notin> set p
        \<and> Atoi p = Some n \<and> n < 2 ^ 63 - 1 \<longrightarrow>
      bumpPatchVersion (major @ ''.'' @ minor @ ''.'' @ p)
        = major @ ''.'' @ minor @ ''.'' @ Sprint_d (n + 1)
      \<and> Atoi (Sprint_d (n + 1)) = Some (n + 1))
   \<and> (length (Split v (CHR ''.'')) \<noteq> 3 \<longrightarrow> bumpPatchVersion v = ''0.0.1'')
   \<and> (coll id' = Some existing
        \<and> UpdateConfig checkProgramExists ctx now coll id' updates = (None, coll') \<longrightarrow>
      (\<exists>stored. coll' id' = Some stored
         \<and> hc_Version stored = bumpPatchVersion (hc_Version existing)))"
proof (intro conjI impI)
  show "bumpPatchVersion ''1.2.3'' = ''1.2.4''"
    by (simp add: bumpPatchVersion_def Atoi_def is_digit_def wrap64_def Sprint_d_def
        digits.simps digit_char_def)
next
  assume a: "CHR ''.'' \<notin> set major \<and> CHR ''.'' \<notin> set minor \<and> CHR ''.'' \<notin> set p
        \<and> Atoi p = Some n \<and> n < 2 ^ 63 - 1"
  then show "bumpPatchVersion (major @ ''.'' @ minor @ ''.'' @ p)
        = major @ ''.'' @ minor @ ''.'' @ Sprint_d (n + 1)"
    by (intro bump_three_parts(1)) simp_all
  from a show "Atoi (Sprint_d (n + 1)) = Some (n + 1)"
    by (intro bump_three_parts(2) [of major minor p]) simp_all
next
  assume "length (Split v (CHR ''.'')) \<noteq> 3"
  then show "bumpPatchVersion v = ''0.0.1''" by (rule bump_malformed)
next
  assume "coll id' = Some existing
        \<and> UpdateConfig checkProgramExists ctx now coll id' updates = (None, coll')"
  then show "\<exists>stored. coll' id' = Some stored
         \<and> hc_Version stored = bumpPatchVersion (hc_Version existing)"
    using UpdateConfig_writes_version by blast
qed

text \<open>
  Concrete instances: \<open>7.0.41\<close> becomes \<open>7.0.42\<close>; \<open>1.2\<close> becomes \<open>0.0.1\<close>; and the owner \<open>u1\<close>
  changing the title of an aggregate at version \<open>1.2.3\<close> (with a binding for \<open>version\<close> of the
  caller's own, which is overwritten) leaves it stored at version \<open>1.2.4\<close>.
\<close>

theorem bumpPatchVersion_increments_patch_witness:
  "bumpPatchVersion ''7.0.41'' = ''7.0.42''
   \<and> bumpPatchVersion ''1.2'' = ''0.0.1''
   \<and> fst (UpdateConfig (\<lambda>name. Some ErrNotFound) (example_user ''u1'') 7
        [''cfg1'' \<mapsto> example_config ''cfg1'' ''u1'' [example_node ''a'' ''kitty'' []]] ''cfg1''
        [(''title'', BString ''new title''), (''version'', BString ''9.9.9'')]) = None
   \<and> map_option hc_Version
        (snd (UpdateConfig (\<lambda>name. Some ErrNotFound) (example_user ''u1'') 7
           [''cfg1'' \<mapsto> example_config ''cfg1'' ''u1'' [example_node ''a'' ''kitty'' []]] ''cfg1''
           [(''title'', BString ''new title''), (''version'', BString ''9.9.9'')]) ''cfg1'')
      = Some ''1.2.4''"
proof -
  let ?coll = "[''cfg1'' \<mapsto> example_config ''cfg1'' ''u1'' [example_node ''a'' ''kitty'' []]]"
  let ?run = "UpdateConfig (\<lambda>name. Some ErrNotFound) (example_user ''u1'') 7 ?coll ''cfg1''
        [(''title'', BString ''new title''), (''version'', BString ''9.9.9'')]"
  have ok: "fst ?run = None"
    by (simp add: UpdateConfig_def Let_def unmarshal_merged_def decode_field_def hc_Validate_def
        example_config_def validPrograms_def)
  then have run: "?run = (None, snd ?run)"
    by (simp add: prod_eq_iff)
  have atoi: "Atoi ''41'' = Some 41"
    by (simp add: Atoi_def is_digit_def)
  note inst = bumpPatchVersion_increments_patch
      [where major = "''7''" and minor = "''0''" and p = "''41''" and n = 41 and v = "''1.2''"
         and coll = ?coll and id' = "''cfg1''" and coll' = "snd ?run"
         and existing = "example_config ''cfg1'' ''u1'' [example_node ''a'' ''kitty'' []]"
         and checkProgramExists = "\<lambda>name. Some ErrNotFound" and ctx = "example_user ''u1''"
         and now = 7
         and updates = "[(''title'', BString ''new title''), (''version'', BString ''9.9.9'')]"]
  from inst have v123: "bumpPatchVersion ''1.2.3'' = ''1.2.4''"
    by blast
  from inst atoi
  have v41: "bumpPatchVersion (''7'' @ ''.'' @ ''0'' @ ''.'' @ ''41'')
        = ''7'' @ ''.'' @ ''0'' @ ''.'' @ Sprint_d (41 + 1)"
    by simp
  from inst have v12: "bumpPatchVersion ''1.2'' = ''0.0.1''"
    by simp
  have "?coll ''cfg1'' = Some (example_config ''cfg1'' ''u1'' [example_node ''a'' ''kitty'' []])"
    by simp
  with inst run
  have st: "\<exists>stored. snd ?run ''cfg1'' = Some stored
         \<and> hc_Version stored = bumpPatchVersion (hc_Version
              (example_config ''cfg1'' ''u1'' [example_node ''a'' ''kitty'' []]))"
    by blast
  have "Sprint_d (41 + 1) = ''42''"
    by (simp add: Sprint_d_def digits.simps digit_char_def)
  with v41 have "bumpPatchVersion ''7.0.41'' = ''7.0.42''" by simp
  moreover from st v123 have "map_option hc_Version (snd ?run ''cfg1'') = Some ''1.2.4''"
    by auto
  ultimately show ?thesis using v12 ok by blast
qed

text \<open>
  The claim as it was stated fails at the edge of the integer range. The patch component
  \<open>9223372036854775807\<close> is numeric and \<open>Atoi\<close> accepts it, but the increment wraps around to
  \<open>-9223372036854775808\<close>; the patch component \<open>99999999999999999999\<close> is numeric, \<open>Atoi\<close>
  rejects it as out of range, and the result restarts at patch 1.
\<close>

theorem bumpPatchVersion_overflow_counterexample:
  "Atoi ''9223372036854775807'' = Some 9223372036854775807
   \<and> bumpPatchVersion ''1.2.9223372036854775807'' = ''1.2.-9223372036854775808''
   \<and> bumpPatchVersion ''1.2.9223372036854775807'' \<noteq> ''1.2.9223372036854775808''
   \<and> bumpPatchVersion ''1.2.99999999999999999999'' = ''1.2.1''
   \<and> bumpPatchVersion ''1.2.99999999999999999999'' \<noteq> ''1.2.100000000000000000000''"
  by (simp add: bumpPatchVersion_def Atoi_def is_digit_def wrap64_def Sprint_d_def
      digits.simps digit_char_def)

end
